theory Spec2Isabelle
  imports Main "HOL-Library.Word"
begin

section \<open>Rasters, points and failures\<close>

text \<open>
  A \<open>vpImage<T>\<close> is addressed as \<open>I[i][j]\<close> (row \<open>i\<close>, column \<open>j\<close>): it is modelled
  as the list of its rows.  Heights and widths are \<open>unsigned int\<close> in the source and
  are natural numbers here; an \<open>unsigned char\<close> pixel is an \<open>8 word\<close>, an \<open>int\<close>
  pixel or label an \<open>int\<close>.
\<close>

type_synonym 'a vpImage = "'a list list"

definition getHeight :: "'a vpImage \<Rightarrow> nat" where
  "getHeight I = length I"

definition getWidth :: "'a vpImage \<Rightarrow> nat" where
  "getWidth I = (case I of [] \<Rightarrow> 0 | r # _ \<Rightarrow> length r)"

definition getSize :: "'a vpImage \<Rightarrow> nat" where
  "getSize I = getHeight I * getWidth I"


definition pix :: "'a vpImage \<Rightarrow> nat \<Rightarrow> nat \<Rightarrow> 'a" where
  "pix I i j = I ! i ! j"

definition setpix :: "'a vpImage \<Rightarrow> nat \<Rightarrow> nat \<Rightarrow> 'a \<Rightarrow> 'a vpImage" where
  "setpix I i j v = I[i := (I ! i)[j := v]]"

definition newImage :: "nat \<Rightarrow> nat \<Rightarrow> 'a \<Rightarrow> 'a vpImage" where
  "newImage h w v = replicate h (replicate w v)"

text \<open>A \<open>vpImagePoint\<close> holds two doubles \<open>(i, j)\<close> that always carry integral values.\<close>

type_synonym vpImagePoint = "int \<times> int"

text \<open>
  What ends a call without a result: the \<open>vpException(fatalError)\<close> thrown by
  \<open>followBorder\<close>, a member access through a pointer that is null or is the address
  of no contour, a member access through a pointer that was never initialised, a raster
  access outside the allocated rows, and (for the model only) a border walk that did
  not end within its fuel.
\<close>

datatype failure = FatalError | NullPointer | Uninitialised | OutOfBounds | OutOfFuel

fun for_loop :: "nat list \<Rightarrow> (nat \<Rightarrow> 's \<Rightarrow> failure + 's) \<Rightarrow> 's \<Rightarrow> failure + 's" where
  "for_loop [] body s = Inr s"
| "for_loop (k # ks) body s =
     (case body k s of Inl e \<Rightarrow> Inl e | Inr s' \<Rightarrow> for_loop ks body s')"

section \<open>Directions (vpContours.h)\<close>

datatype vpContourType = CONTOUR_OUTER | CONTOUR_HOLE | CONTOUR_BACKGROUND

datatype vpDirectionType =
  NORTH | NORTH_EAST | EAST | SOUTH_EAST | SOUTH | SOUTH_WEST | WEST | NORTH_WEST

fun dir_index :: "vpDirectionType \<Rightarrow> nat" where
  "dir_index NORTH = 0"
| "dir_index NORTH_EAST = 1"
| "dir_index EAST = 2"
| "dir_index SOUTH_EAST = 3"
| "dir_index SOUTH = 4"
| "dir_index SOUTH_WEST = 5"
| "dir_index WEST = 6"
| "dir_index NORTH_WEST = 7"

definition all_directions :: "vpDirectionType list" where
  "all_directions =
     [NORTH, NORTH_EAST, EAST, SOUTH_EAST, SOUTH, SOUTH_WEST, WEST, NORTH_WEST]"

definition dir_of_index :: "nat \<Rightarrow> vpDirectionType" where
  "dir_of_index n = all_directions ! n"

definition dirx :: "int list" where
  "dirx = [0, 1, 1, 1, 0, -1, -1, -1]"

definition diry :: "int list" where
  "diry = [-1, -1, 0, 1, 1, 1, 0, -1]"

definition clockwise :: "vpDirectionType \<Rightarrow> vpDirectionType" where
  "clockwise d = dir_of_index ((dir_index d + 1) mod 8)"

definition counterClockwise :: "vpDirectionType \<Rightarrow> vpDirectionType" where
  "counterClockwise d =
     (let idx = int (dir_index d) - 1;
          idx = (if idx < 0 then idx + 8 else idx)
      in dir_of_index (nat idx))"

text \<open>
  Unsigned arithmetic (\<open>I.getWidth() - 1\<close>) is arithmetic modulo \<open>2^32\<close>; the
  cast \<open>(unsigned int)\<close> of a coordinate that lies in the range of \<open>unsigned int\<close>
  keeps its value.
\<close>

definition to_uint :: "int \<Rightarrow> int" where
  "to_uint x = x mod 2 ^ 32"

text \<open>
  \<open>vpDirection::active\<close> casts \<open>point.get_i() + diry[...]\<close> and
  \<open>point.get_j() + dirx[...]\<close>, two doubles, to \<open>unsigned int\<close>.  At the row above
  row 0 and at the column left of column 0 the double is \<open>-1\<close>, outside the range of
  \<open>unsigned int\<close>, and the language leaves the result of the cast open.  The cast is
  therefore a parameter \<open>cast\<close> of \<open>active\<close> and of every function that reaches it;
  nothing is assumed of it.  Two conversions that compilers produce: \<open>to_uint\<close> wraps
  around (\<open>-1\<close> becomes \<open>4294967295\<close>), \<open>saturating\<close> clamps to the range
  (\<open>-1\<close> becomes \<open>0\<close>).
\<close>

type_synonym conversion = "int \<Rightarrow> int"

definition saturating :: conversion where
  "saturating x = (if x < 0 then 0 else if x > 4294967295 then 4294967295 else x)"

text \<open>The conversion of an \<open>int\<close> pixel to \<open>unsigned char\<close>.\<close>

definition to_uchar :: "int \<Rightarrow> 8 word" where
  "to_uchar v = word_of_int v"

definition invalid_point :: vpImagePoint where
  "invalid_point = (-1, -1)"

definition valid_point :: "vpImagePoint \<Rightarrow> bool" where
  "valid_point p = (fst p \<ge> 0 \<and> snd p \<ge> 0)"

definition active ::
  "conversion \<Rightarrow> vpDirectionType \<Rightarrow> int vpImage \<Rightarrow> vpImagePoint \<Rightarrow> vpImagePoint" where
  "active cast m_direction I point =
     (let yy = cast (fst point + diry ! dir_index m_direction);
          xx = cast (snd point + dirx ! dir_index m_direction)
      in if xx < 0 \<or> xx \<ge> int (getWidth I) \<or> yy < 0 \<or> yy \<ge> int (getHeight I)
         then invalid_point
         else let pixel = to_uchar (pix I (nat yy) (nat xx))
              in if pixel \<noteq> 0 then (yy, xx) else invalid_point)"

section \<open>Border following (vpContours.cpp)\<close>

definition fromTo :: "vpImagePoint \<Rightarrow> vpImagePoint \<Rightarrow> vpDirectionType option" where
  "fromTo from to =
     (if from = to then None
      else if fst from = fst to then
        (if snd from < snd to then Some EAST else Some WEST)
      else if fst from < fst to then
        (if snd from = snd to then Some SOUTH
         else if snd from < snd to then Some SOUTH_EAST
         else Some SOUTH_WEST)
      else
        (if snd from = snd to then Some NORTH
         else if snd from < snd to then Some NORTH_EAST
         else Some NORTH_WEST))"

text \<open>
  \<open>while (trace.m_direction != dir.m_direction)\<close>: probe clockwise around \<open>ij\<close> for the
  first active neighbour; \<open>(-1, -1)\<close> when the turn comes back to \<open>dir\<close>.
\<close>

function first_active ::
  "conversion \<Rightarrow> vpDirectionType \<Rightarrow> vpDirectionType \<Rightarrow> int vpImage \<Rightarrow> vpImagePoint
     \<Rightarrow> vpImagePoint" where
  "first_active cast trace dir I ij =
     (if trace \<noteq> dir then
        (let activePixel = active cast trace I ij
         in if fst activePixel \<ge> 0 \<and> snd activePixel \<ge> 0 then activePixel
            else first_active cast (clockwise trace) dir I ij)
      else invalid_point)"
  by pat_completeness auto
termination
proof (relation "measure (\<lambda>(cast, trace, dir, I, ij). (dir_index dir + 8 - dir_index trace) mod 8)",
    goal_cases)
  case 1
  show ?case by simp
next
  case (2 cast trace dir I ij x)
  from \<open>trace \<noteq> dir\<close> show ?case
    by (cases trace; cases dir;
        simp add: clockwise_def dir_of_index_def all_directions_def)
qed

declare first_active.simps [simp del]

text \<open>
  \<open>bool checked[8]\<close> is indexed by direction.  \<open>probe\<close> is the loop
  \<open>while (!problem)\<close>: scan counter-clockwise around \<open>i3j3\<close> for an active neighbour,
  ticking off every direction that has none; \<open>problem\<close> once all eight are ticked.
  It returns \<open>(problem, i4j4, checked)\<close>.
\<close>

definition all_checked :: "(vpDirectionType \<Rightarrow> bool) \<Rightarrow> bool" where
  "all_checked checked = list_all checked all_directions"

definition probe_measure :: "vpDirectionType \<Rightarrow> (vpDirectionType \<Rightarrow> bool) \<Rightarrow> nat" where
  "probe_measure trace checked =
     sum_list (map (\<lambda>d. if checked d then 0
                          else Suc ((dir_index trace + 8 - dir_index d) mod 8)) all_directions)"

function probe ::
  "conversion \<Rightarrow> vpDirectionType \<Rightarrow> (vpDirectionType \<Rightarrow> bool) \<Rightarrow> int vpImage \<Rightarrow> vpImagePoint
     \<Rightarrow> bool \<times> vpImagePoint \<times> (vpDirectionType \<Rightarrow> bool)" where
  "probe cast trace checked I i3j3 =
     (let i4j4 = active cast trace I i3j3
      in if fst i4j4 \<ge> 0 \<and> snd i4j4 \<ge> 0 then (False, i4j4, checked)
         else let checked' = checked(trace := True);
                  trace' = counterClockwise trace;
                  problem = all_checked checked'
              in if problem then (True, i4j4, checked')
                 else probe cast trace' checked' I i3j3)"
  by pat_completeness auto
termination
proof (relation "measure (\<lambda>(cast, trace, checked, I, i3j3). probe_measure trace checked)",
    goal_cases)
  case 1
  show ?case by simp
next
  case (2 cast trace checked I i3j3 i4j4 checked' trace' problem)
  have mono: "sum_list (map f xs) < sum_list (map g xs)"
    if "\<forall>x\<in>set xs. f x \<le> g x" "\<exists>x\<in>set xs. f x < g x"
    for f g :: "vpDirectionType \<Rightarrow> nat" and xs
    using that
  proof (induction xs)
    case Nil
    then show ?case by simp
  next
    case (Cons a xs)
    have le: "sum_list (map f xs) \<le> sum_list (map g xs)"
      using Cons.prems(1) by (intro sum_list_mono) simp
    show ?case
    proof (cases "f a < g a")
      case True
      with le show ?thesis by simp
    next
      case False
      with Cons.prems have "\<exists>x\<in>set xs. f x < g x" by auto
      with Cons.IH Cons.prems(1) have "sum_list (map f xs) < sum_list (map g xs)" by simp
      moreover have "f a \<le> g a" using Cons.prems(1) by simp
      ultimately show ?thesis by simp
    qed
  qed
  have step: "(dir_index (counterClockwise trace) + 8 - dir_index d) mod 8
      < (dir_index trace + 8 - dir_index d) mod 8" if "d \<noteq> trace" for d
    using that
    by (cases trace; cases d;
        simp add: counterClockwise_def dir_of_index_def all_directions_def)
  have univ: "d \<in> set all_directions" for d
    by (cases d) (simp_all add: all_directions_def)
  from 2 obtain d0 where d0: "\<not> checked' d0"
    by (auto simp: all_checked_def list_all_iff)
  then have d0': "d0 \<noteq> trace" "\<not> checked d0"
    using 2 by (auto split: if_splits)
  have "probe_measure trace' checked' < probe_measure trace checked"
    unfolding probe_measure_def
  proof (rule mono)
    show "\<forall>d\<in>set all_directions.
        (if checked' d then 0 else Suc ((dir_index trace' + 8 - dir_index d) mod 8))
        \<le> (if checked d then 0 else Suc ((dir_index trace + 8 - dir_index d) mod 8))"
      using 2 step by (auto simp: less_imp_le)
    show "\<exists>d\<in>set all_directions.
        (if checked' d then 0 else Suc ((dir_index trace' + 8 - dir_index d) mod 8))
        < (if checked d then 0 else Suc ((dir_index trace + 8 - dir_index d) mod 8))"
      using d0 d0' step [of d0] 2 univ [of d0] by (intro bexI [of _ d0]) auto
  qed
  then show ?case by simp
qed

declare probe.simps [simp del]

definition crossesEastBorder ::
  "int vpImage \<Rightarrow> (vpDirectionType \<Rightarrow> bool) \<Rightarrow> vpImagePoint \<Rightarrow> bool" where
  "crossesEastBorder I checked point =
     (case fromTo point (fst point, snd point + 1) of
        None \<Rightarrow> False
      | Some direction \<Rightarrow>
          (let b = checked direction;
               i = nat (to_uint (fst point));
               j = nat (to_uint (snd point))
           in pix I i j \<noteq> 0 \<and> (to_uint (snd point) = to_uint (int (getWidth I) - 1) \<or> b)))"

text \<open>
  \<open>addContourPoint\<close> appends to \<open>border->m_points\<close> and marks the raster; the point
  list of the border is passed in and handed back.
\<close>

definition addContourPoint ::
  "int vpImage \<Rightarrow> vpImagePoint list \<Rightarrow> vpImagePoint \<Rightarrow> (vpDirectionType \<Rightarrow> bool) \<Rightarrow> int
     \<Rightarrow> int vpImage \<times> vpImagePoint list" where
  "addContourPoint I m_points point checked nbd =
     (let m_points = m_points @ [point];
          i = nat (to_uint (fst point));
          j = nat (to_uint (snd point))
      in if crossesEastBorder I checked point then (setpix I i j (- nbd), m_points)
         else if pix I i j = 1 then (setpix I i j nbd, m_points)
         else (I, m_points))"

text \<open>
  The \<open>while (true)\<close> walk of \<open>followBorder\<close>, with fuel: one unit per pixel visited.
  The state is the raster, the points of the border, \<open>i2j2\<close> and \<open>i3j3\<close>.
\<close>

fun walk ::
  "conversion \<Rightarrow> nat \<Rightarrow> vpImagePoint \<Rightarrow> vpImagePoint \<Rightarrow> int \<Rightarrow> int vpImage \<Rightarrow> vpImagePoint list
     \<Rightarrow> vpImagePoint \<Rightarrow> vpImagePoint \<Rightarrow> failure + (bool \<times> int vpImage \<times> vpImagePoint list)" where
  "walk cast 0 ij i1j1 nbd I m_points i2j2 i3j3 = Inl OutOfFuel"
| "walk cast (Suc fuel) ij i1j1 nbd I m_points i2j2 i3j3 =
     (case fromTo i3j3 i2j2 of
        None \<Rightarrow> Inl FatalError
      | Some dir \<Rightarrow>
          (case probe cast (counterClockwise dir) (\<lambda>cpt. False) I i3j3 of
             (problem, i4j4, checked) \<Rightarrow>
               if problem then Inr (False, I, m_points)
               else (case addContourPoint I m_points i3j3 checked nbd of
                       (I', m_points') \<Rightarrow>
                         if i4j4 = ij \<and> i3j3 = i1j1 then Inr (True, I', m_points')
                         else walk cast fuel ij i1j1 nbd I' m_points' i3j3 i4j4)))"

definition followBorder ::
  "conversion \<Rightarrow> nat \<Rightarrow> int vpImage \<Rightarrow> vpImagePoint \<Rightarrow> vpImagePoint \<Rightarrow> vpImagePoint list \<Rightarrow> int
     \<Rightarrow> failure + (bool \<times> int vpImage \<times> vpImagePoint list)" where
  "followBorder cast fuel I ij i2j2 m_points nbd =
     (case fromTo ij i2j2 of
        None \<Rightarrow> Inl FatalError
      | Some dir \<Rightarrow>
          (let i1j1 = first_active cast (clockwise dir) dir I ij
           in if fst i1j1 < 0 \<or> snd i1j1 < 0 then Inr (False, I, m_points)
              else walk cast fuel ij i1j1 nbd I m_points i1j1 ij))"

definition isOuterBorderStart :: "int vpImage \<Rightarrow> nat \<Rightarrow> nat \<Rightarrow> bool" where
  "isOuterBorderStart I i j = (pix I i j = 1 \<and> (j = 0 \<or> pix I i (j - 1) = 0))"

definition isHoleBorderStart :: "int vpImage \<Rightarrow> nat \<Rightarrow> nat \<Rightarrow> bool" where
  "isHoleBorderStart I i j =
     (pix I i j \<ge> 1 \<and> (int j = to_uint (int (getWidth I) - 1) \<or> pix I i (j + 1) = 0))"

section \<open>Contour extraction (vpContours.cpp)\<close>

text \<open>
  A \<open>vpContour\<close> lives on the heap and is referred to by pointer; the heap is a map
  from addresses to contours, \<open>new\<close> takes the next unused address and \<open>delete\<close>
  removes the entry.  A pointer member is null, holds an address, or has never been
  given a value.
\<close>

datatype pointer = Null | Addr nat | Indeterminate

record vpContour =
  m_contourType :: vpContourType
  m_children :: "nat list"
  m_parent :: pointer
  m_points :: "vpImagePoint list"

type_synonym heap = "nat \<Rightarrow> vpContour option"

text \<open>
  The two constructors.  \<open>vpContour()\<close> initialises \<open>m_parent\<close> with \<open>NULL\<close>;
  \<open>vpContour(const vpContourType &type)\<close> has the initialiser list
  \<open>m_contourType(type)\<close> only and leaves \<open>m_parent\<close> without a value.
\<close>

definition new_vpContour :: vpContour where
  "new_vpContour =
     \<lparr>m_contourType = CONTOUR_HOLE, m_children = [], m_parent = Null, m_points = []\<rparr>"

definition new_vpContour_of :: "vpContourType \<Rightarrow> vpContour" where
  "new_vpContour_of type =
     \<lparr>m_contourType = type, m_children = [], m_parent = Indeterminate, m_points = []\<rparr>"

text \<open>
  \<open>setParent\<close> stores the pointer and then reaches through it
  (\<open>parent->m_children.push_back(this)\<close>) without a test.
\<close>

definition setParent :: "nat \<Rightarrow> pointer \<Rightarrow> heap \<Rightarrow> failure + heap" where
  "setParent this parent h =
     (case h this of
        None \<Rightarrow> Inl NullPointer
      | Some c \<Rightarrow>
          (let h = h(this \<mapsto> c\<lparr>m_parent := parent\<rparr>)
           in case parent of
                Null \<Rightarrow> Inl NullPointer
              | Indeterminate \<Rightarrow> Inl Uninitialised
              | Addr p \<Rightarrow>
                  (case h p of
                     None \<Rightarrow> Inl NullPointer
                   | Some pc \<Rightarrow> Inr (h(p \<mapsto> pc\<lparr>m_children := m_children pc @ [this]\<rparr>)))))"

text \<open>
  Modelled from the spec: \<open>removeParent\<close>, declared in a header that is not among the
  sources.  The spec describes the rollback as "removing it from its parent": the
  contour is taken out of the children of the given parent.  The parent is reached
  through the pointer as \<open>setParent\<close> reaches it, so that a pointer which is null,
  without a value or the address of no contour is a failure here as it is there.
\<close>

definition removeParent :: "nat \<Rightarrow> pointer \<Rightarrow> heap \<Rightarrow> failure + heap" where
  "removeParent this parent h =
     (case parent of
        Null \<Rightarrow> Inl NullPointer
      | Indeterminate \<Rightarrow> Inl Uninitialised
      | Addr p \<Rightarrow>
          (case h p of
             None \<Rightarrow> Inl NullPointer
           | Some pc \<Rightarrow> Inr (h(p \<mapsto> pc\<lparr>m_children := removeAll this (m_children pc)\<rparr>))))"

text \<open>
  The parent chosen by the two \<open>switch\<close> statements on \<open>borderPrime->m_contourType\<close>:
  \<open>None\<close> is the \<open>default\<close> branch (no call), \<open>Some p\<close> the pointer handed to
  \<open>setParent\<close> or \<open>removeParent\<close>: \<open>borderPrime\<close> itself or the value of
  \<open>borderPrime->m_parent\<close>.
\<close>

definition parent_for_outer :: "vpContour \<Rightarrow> nat \<Rightarrow> pointer option" where
  "parent_for_outer borderPrime addr =
     (case m_contourType borderPrime of
        CONTOUR_OUTER \<Rightarrow> Some (m_parent borderPrime)
      | CONTOUR_HOLE \<Rightarrow> Some (Addr addr)
      | CONTOUR_BACKGROUND \<Rightarrow> None)"

definition parent_for_hole :: "vpContour \<Rightarrow> nat \<Rightarrow> pointer option" where
  "parent_for_hole borderPrime addr =
     (case m_contourType borderPrime of
        CONTOUR_OUTER \<Rightarrow> Some (Addr addr)
      | CONTOUR_HOLE \<Rightarrow> Some (m_parent borderPrime)
      | CONTOUR_BACKGROUND \<Rightarrow> None)"

text \<open>
  The variables of \<open>extractContours\<close>: the caller's raster \<open>I_original\<close> (here
  \<open>I_orig\<close>), the working
  raster \<open>I\<close> (here \<open>img\<close>), the two counters, the heap of contours and the map of
  borders.
\<close>

record scan_state =
  I_orig :: "8 word vpImage"
  img :: "int vpImage"
  nbd :: int
  lnbd :: int
  heap :: heap
  next_addr :: nat
  borderMap :: "int \<Rightarrow> nat option"

definition set_type :: "nat \<Rightarrow> vpContourType \<Rightarrow> heap \<Rightarrow> heap" where
  "set_type a t h = (case h a of None \<Rightarrow> h | Some c \<Rightarrow> h(a \<mapsto> c\<lparr>m_contourType := t\<rparr>))"

definition attach ::
  "(vpContour \<Rightarrow> nat \<Rightarrow> pointer option) \<Rightarrow> nat \<Rightarrow> nat \<Rightarrow> heap \<Rightarrow> failure + heap" where
  "attach rule border borderPrime h =
     (case h borderPrime of
        None \<Rightarrow> Inl NullPointer
      | Some bp \<Rightarrow>
          (case rule bp borderPrime of
             None \<Rightarrow> Inr h
           | Some parent \<Rightarrow> setParent border parent h))"

definition detach ::
  "(vpContour \<Rightarrow> nat \<Rightarrow> pointer option) \<Rightarrow> nat \<Rightarrow> nat \<Rightarrow> heap \<Rightarrow> failure + heap" where
  "detach rule border borderPrime h =
     (case h borderPrime of
        None \<Rightarrow> Inl NullPointer
      | Some bp \<Rightarrow>
          (case rule bp borderPrime of
             None \<Rightarrow> Inr h
           | Some parent \<Rightarrow> removeParent border parent h))"

text \<open>The \<open>else\<close> branch of \<open>if (followBorder(...))\<close>: the contour is given up.\<close>

definition rollback ::
  "nat \<Rightarrow> nat \<Rightarrow> bool \<Rightarrow> bool \<Rightarrow> nat \<Rightarrow> nat \<Rightarrow> scan_state \<Rightarrow> failure + scan_state" where
  "rollback i j isOuter isHole border borderPrime s =
     (let s = s\<lparr>img := setpix (img s) i j (- nbd s)\<rparr>;
          h = (case heap s border of
                 None \<Rightarrow> heap s
               | Some b \<Rightarrow> (heap s)(border \<mapsto> b\<lparr>m_points := []\<rparr>))
      in case (if isOuter then detach parent_for_outer border borderPrime h else Inr h) of
           Inl e \<Rightarrow> Inl e
         | Inr h \<Rightarrow>
             (case (if isHole then detach parent_for_hole border borderPrime h else Inr h) of
                Inl e \<Rightarrow> Inl e
              | Inr h \<Rightarrow> Inr (s\<lparr>heap := h(border := None)\<rparr>)))"

text \<open>The block \<open>if (borderPrime != NULL)\<close>: trace, then register or give up.\<close>

definition trace_border ::
  "conversion \<Rightarrow> nat \<Rightarrow> nat \<Rightarrow> nat \<Rightarrow> bool \<Rightarrow> bool \<Rightarrow> nat \<Rightarrow> nat \<Rightarrow> vpImagePoint \<Rightarrow> scan_state
     \<Rightarrow> failure + scan_state" where
  "trace_border cast fuel i j isOuter isHole border borderPrime from s =
     (case heap s border of
        None \<Rightarrow> Inl NullPointer
      | Some b \<Rightarrow>
          (let ij = (int i, int j)
           in case followBorder cast fuel (img s) ij from (m_points b) (nbd s) of
                Inl e \<Rightarrow> Inl e
              | Inr (ok, I', points) \<Rightarrow>
                  (let s = s\<lparr>img := I', heap := (heap s)(border \<mapsto> b\<lparr>m_points := points\<rparr>)\<rparr>
                   in if ok then
                        (let s = (if points = []
                                  then s\<lparr>img := setpix I' i j (- nbd s),
                                         heap := (heap s)(border \<mapsto> b\<lparr>m_points := [ij]\<rparr>)\<rparr>
                                  else s)
                         in Inr (s\<lparr>borderMap := (borderMap s)(nbd s \<mapsto> border)\<rparr>))
                      else rollback i j isOuter isHole border borderPrime s)))"

text \<open>The block \<open>if (isOuter || isHole)\<close>.\<close>

definition start_border ::
  "conversion \<Rightarrow> nat \<Rightarrow> nat \<Rightarrow> nat \<Rightarrow> int \<Rightarrow> bool \<Rightarrow> bool \<Rightarrow> scan_state \<Rightarrow> failure + scan_state" where
  "start_border cast fuel i j fji isOuter isHole s =
     (let border = next_addr s;
          s = s\<lparr>heap := (heap s)(border \<mapsto> new_vpContour), next_addr := Suc border\<rparr>
      in if isOuter then
           (let s = s\<lparr>nbd := nbd s + 1\<rparr>;
                from = (int i, int j - 1);
                s = s\<lparr>heap := set_type border CONTOUR_OUTER (heap s)\<rparr>
            in case borderMap s (lnbd s) of
                 None \<Rightarrow> Inr s
               | Some borderPrime \<Rightarrow>
                   (case attach parent_for_outer border borderPrime (heap s) of
                      Inl e \<Rightarrow> Inl e
                    | Inr h \<Rightarrow>
                        trace_border cast fuel i j isOuter isHole border borderPrime from
                          (s\<lparr>heap := h\<rparr>)))
         else
           (let s = s\<lparr>nbd := nbd s + 1\<rparr>;
                s = (if fji > 1 then s\<lparr>lnbd := fji\<rparr> else s)
            in case borderMap s (lnbd s) of
                 None \<Rightarrow> Inr s
               | Some borderPrime \<Rightarrow>
                   (let from = (int i, int j + 1);
                        s = s\<lparr>heap := set_type border CONTOUR_HOLE (heap s)\<rparr>
                    in case attach parent_for_hole border borderPrime (heap s) of
                         Inl e \<Rightarrow> Inl e
                       | Inr h \<Rightarrow>
                           trace_border cast fuel i j isOuter isHole border borderPrime from
                             (s\<lparr>heap := h\<rparr>))))"

text \<open>The body of the loop over \<open>j\<close>.\<close>

definition scan_pixel ::
  "conversion \<Rightarrow> nat \<Rightarrow> nat \<Rightarrow> nat \<Rightarrow> scan_state \<Rightarrow> failure + scan_state" where
  "scan_pixel cast fuel i j s =
     (let fji = pix (img s) i j;
          isOuter = isOuterBorderStart (img s) i j;
          isHole = isHoleBorderStart (img s) i j
      in case (if isOuter \<or> isHole then start_border cast fuel i j fji isOuter isHole s
               else Inr s) of
           Inl e \<Rightarrow> Inl e
         | Inr s \<Rightarrow> Inr (if fji \<noteq> 0 \<and> fji \<noteq> 1 then s\<lparr>lnbd := \<bar>fji\<bar>\<rparr> else s))"

definition scan_row ::
  "conversion \<Rightarrow> nat \<Rightarrow> nat \<Rightarrow> scan_state \<Rightarrow> failure + scan_state" where
  "scan_row cast fuel i s =
     for_loop [0..<getWidth (img s)] (scan_pixel cast fuel i) (s\<lparr>lnbd := 1\<rparr>)"

text \<open>
  The contour object of the caller (the reference parameter \<open>contour\<close>), with the heap
  that the pointers in it lead to.
\<close>

record contour_tree =
  top :: vpContour
  nodes :: heap

text \<open>
  The state at the first row: the working raster is a copy of the caller's, the root
  is the first contour allocated (address 0) and is entered in the map of borders
  under 1.
\<close>

definition initial_scan :: "8 word vpImage \<Rightarrow> scan_state" where
  "initial_scan I_original =
     \<lparr>I_orig = I_original, img = map (map uint) I_original, nbd = 1, lnbd = 1,
      heap = (\<lambda>a. None)(0 \<mapsto> new_vpContour_of CONTOUR_HOLE), next_addr = 1,
      borderMap = (\<lambda>k. None)(1 \<mapsto> 0)\<rparr>"

text \<open>The two nested loops over the working raster.\<close>

definition scan_image ::
  "conversion \<Rightarrow> nat \<Rightarrow> 8 word vpImage \<Rightarrow> failure + scan_state" where
  "scan_image cast fuel I_original =
     (let s = initial_scan I_original
      in for_loop [0..<getHeight (img s)] (scan_row cast fuel) s)"

text \<open>
  \<open>extractContours\<close> ends with \<open>contour = *root; delete root;\<close>.  \<open>vpContour\<close> has
  no assignment operator of its own, so the assignment copies the root member by
  member into the caller's object: its type, its vector of pointers to the top-level
  contours, its \<open>m_parent\<close> and its points.  Then the root is freed; the top-level
  contours are not touched, their \<open>m_parent\<close> still hold the address of the freed
  root.
\<close>

definition extractContours ::
  "conversion \<Rightarrow> nat \<Rightarrow> 8 word vpImage \<Rightarrow> contour_tree \<Rightarrow> failure + contour_tree" where
  "extractContours cast fuel I_original contour =
     (if getSize I_original = 0 then Inr contour
      else
        (case scan_image cast fuel I_original of
           Inl e \<Rightarrow> Inl e
         | Inr s \<Rightarrow>
             (case heap s 0 of
                None \<Rightarrow> Inl NullPointer
              | Some root \<Rightarrow> Inr \<lparr>top = root, nodes = (heap s)(0 := None)\<rparr>)))"

section \<open>Connected components (vpConnectedComponents.cpp)\<close>

datatype vpConnectedConnexityType = CONNECTED_CONNEXITY_4 | CONNECTED_CONNEXITY_8

text \<open>
  The positions \<open>getNeighbors\<close> looks at, in the order of the source: top, left,
  right, bottom for the 4-connexity, the two nested loops over \<open>cpt1\<close> and \<open>cpt2\<close>
  otherwise.
\<close>

definition neighbor_positions ::
  "vpConnectedConnexityType \<Rightarrow> nat \<Rightarrow> nat \<Rightarrow> (nat \<times> nat) list" where
  "neighbor_positions connexity i j =
     (if connexity = CONNECTED_CONNEXITY_4 then
        [(i - 1, j), (i, j - 1), (i, j + 1), (i + 1, j)]
      else
        [(nat (int i + cpt1), nat (int j + cpt2)).
           cpt1 \<leftarrow> [-1, 0, 1], cpt2 \<leftarrow> [-1, 0, 1], cpt1 \<noteq> 0 \<or> cpt2 \<noteq> 0])"

definition getNeighbors ::
  "8 word vpImage \<Rightarrow> (nat \<times> nat) list \<Rightarrow> nat \<Rightarrow> nat \<Rightarrow> vpConnectedConnexityType
     \<Rightarrow> (nat \<times> nat) list" where
  "getNeighbors I listOfNeighbors i j connexity =
     (let currValue = pix I i j
      in listOfNeighbors
         @ filter (\<lambda>(a, b). pix I a b = currValue) (neighbor_positions connexity i j))"

text \<open>
  The rasters are raw arrays: a read or write outside them is undefined behaviour,
  modelled as the failure \<open>OutOfBounds\<close>.  \<open>in_image\<close> says that a position is inside,
  \<open>neighbors_in_image\<close> that everything \<open>getNeighbors\<close> reads around it is.
\<close>

definition in_image :: "'a vpImage \<Rightarrow> nat \<Rightarrow> nat \<Rightarrow> bool" where
  "in_image I i j = (i < length I \<and> j < length (I ! i))"

definition neighbors_in_image ::
  "'a vpImage \<Rightarrow> vpConnectedConnexityType \<Rightarrow> nat \<Rightarrow> nat \<Rightarrow> bool" where
  "neighbors_in_image I connexity i j =
     (1 \<le> i \<and> 1 \<le> j \<and> list_all (\<lambda>(a, b). in_image I a b) (neighbor_positions connexity i j))"

definition count_nonzero :: "8 word vpImage \<Rightarrow> nat" where
  "count_nonzero I = sum_list (map (\<lambda>r. length (filter (\<lambda>v. v \<noteq> 0) r)) I)"

function visitNeighbors ::
  "8 word vpImage \<Rightarrow> (nat \<times> nat) list \<Rightarrow> int vpImage \<Rightarrow> int \<Rightarrow> vpConnectedConnexityType
     \<Rightarrow> failure + (8 word vpImage \<times> int vpImage)" where
  "visitNeighbors I_copy [] labels current_label connexity = Inr (I_copy, labels)"
| "visitNeighbors I_copy ((i, j) # listOfNeighbors) labels current_label connexity =
     (if \<not> in_image I_copy i j then Inl OutOfBounds
      else if pix I_copy i j \<noteq> 0 then
        (if \<not> neighbors_in_image I_copy connexity i j \<or> \<not> in_image labels i j
         then Inl OutOfBounds
         else visitNeighbors (setpix I_copy i j 0)
                (getNeighbors I_copy listOfNeighbors i j connexity)
                (setpix labels i j current_label) current_label connexity)
      else visitNeighbors I_copy listOfNeighbors labels current_label connexity)"
  by pat_completeness auto
termination
proof (relation "measures [\<lambda>(I_copy, q, labels, l, c). count_nonzero I_copy,
                           \<lambda>(I_copy, q, labels, l, c). length q]", goal_cases)
  case 1
  show ?case by simp
next
  case (2 I_copy i j listOfNeighbors labels current_label connexity)
  then have ij: "i < length I_copy" "j < length (I_copy ! i)" and nz: "I_copy ! i ! j \<noteq> 0"
    by (simp_all add: in_image_def pix_def)
  have row: "length (filter (\<lambda>v. v \<noteq> 0) (r[j := 0])) < length (filter (\<lambda>v. v \<noteq> 0) r)"
    if "j < length r" "r ! j \<noteq> 0" for r :: "8 word list"
  proof -
    have r: "r = take j r @ r ! j # drop (Suc j) r"
      using that(1) by (simp add: id_take_nth_drop)
    have "r[j := 0] = take j r @ 0 # drop (Suc j) r"
      using that(1) by (simp add: upd_conv_take_nth_drop)
    then have "length (filter (\<lambda>v. v \<noteq> 0) (r[j := 0]))
        = length (filter (\<lambda>v. v \<noteq> 0) (take j r)) + length (filter (\<lambda>v. v \<noteq> 0) (drop (Suc j) r))"
      by simp
    moreover have "length (filter (\<lambda>v. v \<noteq> 0) r)
        = length (filter (\<lambda>v. v \<noteq> 0) (take j r)) + Suc (length (filter (\<lambda>v. v \<noteq> 0) (drop (Suc j) r)))"
      by (subst r) (simp add: that(2))
    ultimately show ?thesis by simp
  qed
  have I: "I_copy = take i I_copy @ I_copy ! i # drop (Suc i) I_copy"
    using ij(1) by (simp add: id_take_nth_drop)
  have "setpix I_copy i j 0 = take i I_copy @ (I_copy ! i)[j := 0] # drop (Suc i) I_copy"
    using ij(1) by (simp add: setpix_def upd_conv_take_nth_drop)
  then have "count_nonzero (setpix I_copy i j 0)
      = count_nonzero (take i I_copy) + length (filter (\<lambda>v. v \<noteq> 0) ((I_copy ! i)[j := 0]))
        + count_nonzero (drop (Suc i) I_copy)"
    by (simp add: count_nonzero_def)
  moreover have "count_nonzero I_copy
      = count_nonzero (take i I_copy) + length (filter (\<lambda>v. v \<noteq> 0) (I_copy ! i))
        + count_nonzero (drop (Suc i) I_copy)"
    by (subst I) (simp add: count_nonzero_def)
  ultimately have "count_nonzero (setpix I_copy i j 0) < count_nonzero I_copy"
    using row [OF ij(2) nz] by simp
  then show ?case by simp
next
  case (3 I_copy i j listOfNeighbors labels current_label connexity)
  then show ?case by simp
qed

text \<open>The copy with a one-pixel border of zeros, and the copy back without it.\<close>

definition add_border :: "8 word vpImage \<Rightarrow> 8 word vpImage" where
  "add_border I =
     replicate (getWidth I + 2) 0 # map (\<lambda>r. 0 # r @ [0]) I @ [replicate (getWidth I + 2) 0]"

definition strip_border :: "int vpImage \<Rightarrow> nat \<Rightarrow> nat \<Rightarrow> int vpImage" where
  "strip_border labels_copy h w = map (\<lambda>i. take w (drop 1 (labels_copy ! (i + 1)))) [0..<h]"

record cc_state =
  cc_I :: "8 word vpImage"
  cc_I_copy :: "8 word vpImage"
  cc_labels_copy :: "int vpImage"
  cc_current_label :: int

definition cc_pixel ::
  "vpConnectedConnexityType \<Rightarrow> nat \<Rightarrow> nat \<Rightarrow> cc_state \<Rightarrow> failure + cc_state" where
  "cc_pixel connexity cpt1 cpt2 s =
     (let i = cpt1 + 1; j = cpt2 + 1
      in if pix (cc_I_copy s) i j \<noteq> 0 \<and> pix (cc_labels_copy s) i j = 0 then
           (let listOfNeighbors = getNeighbors (cc_I_copy s) [] i j connexity;
                I_copy = setpix (cc_I_copy s) i j 0;
                labels_copy = setpix (cc_labels_copy s) i j (cc_current_label s)
            in case visitNeighbors I_copy listOfNeighbors labels_copy (cc_current_label s)
                      connexity of
                 Inl e \<Rightarrow> Inl e
               | Inr (I_copy, labels_copy) \<Rightarrow>
                   Inr (s\<lparr>cc_I_copy := I_copy, cc_labels_copy := labels_copy,
                          cc_current_label := cc_current_label s + 1\<rparr>))
         else Inr s)"

text \<open>
  \<open>labels\<close> and \<open>nbComponents\<close> are reference parameters: the values the caller
  passes in come back unchanged when the function returns early.
\<close>

definition label_scan ::
  "8 word vpImage \<Rightarrow> vpConnectedConnexityType \<Rightarrow> failure + cc_state" where
  "label_scan I connexity =
     (let s = \<lparr>cc_I = I, cc_I_copy = add_border I,
                cc_labels_copy = newImage (getHeight I + 2) (getWidth I + 2) 0,
                cc_current_label = 1\<rparr>
      in for_loop [0..<getHeight I]
           (\<lambda>cpt1. for_loop [0..<getWidth I] (cc_pixel connexity cpt1)) s)"

definition connectedComponents ::
  "8 word vpImage \<Rightarrow> int vpImage \<Rightarrow> int \<Rightarrow> vpConnectedConnexityType
     \<Rightarrow> failure + (int vpImage \<times> int)" where
  "connectedComponents I labels nbComponents connexity =
     (if getSize I = 0 then Inr (labels, nbComponents)
      else
        (case label_scan I connexity of
           Inl e \<Rightarrow> Inl e
         | Inr s \<Rightarrow>
             Inr (strip_border (cc_labels_copy s) (getHeight I) (getWidth I),
                  cc_current_label s - 1)))"

subsection \<open>The two-pass variant\<close>

text \<open>
  A \<open>std::set<int>\<close> is the increasing list of its elements, a
  \<open>std::map<int, std::set<int> >\<close> the list of its entries by increasing key.
\<close>

definition set_insert :: "int \<Rightarrow> int list \<Rightarrow> int list" where
  "set_insert x xs = (if x \<in> set xs then xs else insort x xs)"

definition set_union :: "int list \<Rightarrow> int list \<Rightarrow> int list" where
  "set_union xs ys = fold set_insert ys xs"

fun map_get :: "(int \<times> int list) list \<Rightarrow> int \<Rightarrow> int list" where
  "map_get [] k = []"
| "map_get ((k', v) # m) k = (if k = k' then v else map_get m k)"

fun map_put :: "(int \<times> int list) list \<Rightarrow> int \<Rightarrow> int list \<Rightarrow> (int \<times> int list) list" where
  "map_put [] k v = [(k, v)]"
| "map_put ((k', v') # m) k v =
     (if k = k' then (k, v) # m
      else if k < k' then (k, v) # (k', v') # m
      else (k', v') # map_put m k v)"

definition getNeighborLabels ::
  "8 word vpImage \<Rightarrow> int vpImage \<Rightarrow> nat \<Rightarrow> nat \<Rightarrow> vpConnectedConnexityType \<Rightarrow> int list" where
  "getNeighborLabels I labels i j connexity =
     (let currValue = pix I i j;
          look = (\<lambda>(a, b) setOfNeighborLabels.
                    if pix I a b = currValue \<and> pix labels a b \<noteq> 0
                    then set_insert (pix labels a b) setOfNeighborLabels
                    else setOfNeighborLabels)
      in if connexity = CONNECTED_CONNEXITY_4 then
           fold look [(i - 1, j), (i, j - 1)] []
         else
           fold look ([(i - 1, nat (int j + cpt2)). cpt2 \<leftarrow> [-1, 0, 1]] @ [(i, j - 1)]) [])"

record tp_state =
  tp_I :: "8 word vpImage"
  tp_I_copy :: "8 word vpImage"
  tp_labels_copy :: "int vpImage"
  tp_current_label :: int
  tp_equivalent_labels :: "(int \<times> int list) list"

definition first_pass_pixel ::
  "vpConnectedConnexityType \<Rightarrow> nat \<Rightarrow> nat \<Rightarrow> tp_state \<Rightarrow> tp_state" where
  "first_pass_pixel connexity cpt1 cpt2 s =
     (let i = cpt1 + 1; j = cpt2 + 1
      in if pix (tp_I_copy s) i j \<noteq> 0 then
           (let neighbor_labels =
                  getNeighborLabels (tp_I_copy s) (tp_labels_copy s) i j connexity;
                current_label = tp_current_label s;
                equivalent_labels = tp_equivalent_labels s
            in if neighbor_labels = [] then
                 s\<lparr>tp_equivalent_labels :=
                      map_put equivalent_labels current_label
                        (set_insert current_label (map_get equivalent_labels current_label)),
                    tp_labels_copy := setpix (tp_labels_copy s) i j current_label,
                    tp_current_label := current_label + 1\<rparr>
               else
                 (let smallest_label = hd neighbor_labels
                  in s\<lparr>tp_labels_copy := setpix (tp_labels_copy s) i j smallest_label,
                        tp_equivalent_labels :=
                          fold (\<lambda>it m. map_put m it (set_union (map_get m it) neighbor_labels))
                            neighbor_labels equivalent_labels\<rparr>))
         else s)"

text \<open>
  The loop between the passes: every entry, in key order, takes in the sets of the
  labels it held when its turn came.
\<close>

definition merge_entry :: "int \<Rightarrow> (int \<times> int list) list \<Rightarrow> (int \<times> int list) list" where
  "merge_entry key m =
     (let current_set = map_get m key
      in fold (\<lambda>it2 m. if key \<noteq> it2
                         then map_put m key (set_union (map_get m key) (map_get m it2))
                         else m)
           current_set m)"

definition merge_equivalent_labels :: "(int \<times> int list) list \<Rightarrow> (int \<times> int list) list" where
  "merge_equivalent_labels m = fold merge_entry (map fst m) m"

definition second_pass_pixel :: "nat \<Rightarrow> nat \<Rightarrow> tp_state \<Rightarrow> tp_state" where
  "second_pass_pixel cpt1 cpt2 s =
     (let i = cpt1 + 1; j = cpt2 + 1
      in if pix (tp_I_copy s) i j \<noteq> 0
         then s\<lparr>tp_labels_copy :=
                  setpix (tp_labels_copy s) i j
                    (hd (map_get (tp_equivalent_labels s) (pix (tp_labels_copy s) i j)))\<rparr>
         else s)"

definition two_pass :: "8 word vpImage \<Rightarrow> vpConnectedConnexityType \<Rightarrow> tp_state" where
  "two_pass I connexity =
     (let s = \<lparr>tp_I = I, tp_I_copy = add_border I,
                tp_labels_copy = newImage (getHeight I + 2) (getWidth I + 2) 0,
                tp_current_label = 1, tp_equivalent_labels = []\<rparr>;
          s = fold (\<lambda>cpt1. fold (first_pass_pixel connexity cpt1) [0..<getWidth I])
                [0..<getHeight I] s;
          s = s\<lparr>tp_equivalent_labels := merge_equivalent_labels (tp_equivalent_labels s)\<rparr>
      in fold (\<lambda>cpt1. fold (second_pass_pixel cpt1) [0..<getWidth I]) [0..<getHeight I] s)"

definition connectedComponents2 ::
  "8 word vpImage \<Rightarrow> int vpImage \<Rightarrow> int \<Rightarrow> vpConnectedConnexityType \<Rightarrow> int vpImage \<times> int" where
  "connectedComponents2 I labels nbComponents connexity =
     (if getSize I = 0 then (labels, nbComponents)
      else
        (let s = two_pass I connexity
         in (strip_border (tp_labels_copy s) (getHeight I) (getWidth I),
             tp_current_label s - 1)))"

section \<open>The caller's objects\<close>

text \<open>
  The objects a caller hands to the three operations by reference: the input raster
  (a \<open>const\<close> reference), the contour, the label raster and the component count.  A
  call gives back these objects as they are when the operation returns; the input
  raster is read from the variable that holds it in the final state.
\<close>

record caller_memory =
  cm_image :: "8 word vpImage"
  cm_contour :: contour_tree
  cm_labels :: "int vpImage"
  cm_nbComponents :: int

definition call_extractContours ::
  "conversion \<Rightarrow> nat \<Rightarrow> caller_memory \<Rightarrow> failure + caller_memory" where
  "call_extractContours cast fuel m =
     (if getSize (cm_image m) = 0 then Inr m
      else
        (case scan_image cast fuel (cm_image m) of
           Inl e \<Rightarrow> Inl e
         | Inr s \<Rightarrow>
             (case heap s 0 of
                None \<Rightarrow> Inl NullPointer
              | Some root \<Rightarrow>
                  Inr (m\<lparr>cm_image := I_orig s,
                         cm_contour := \<lparr>top = root, nodes = (heap s)(0 := None)\<rparr>\<rparr>))))"

definition call_connectedComponents ::
  "vpConnectedConnexityType \<Rightarrow> caller_memory \<Rightarrow> failure + caller_memory" where
  "call_connectedComponents connexity m =
     (if getSize (cm_image m) = 0 then Inr m
      else
        (case label_scan (cm_image m) connexity of
           Inl e \<Rightarrow> Inl e
         | Inr s \<Rightarrow>
             Inr (m\<lparr>cm_image := cc_I s,
                    cm_labels := strip_border (cc_labels_copy s) (getHeight (cc_I s))
                                   (getWidth (cc_I s)),
                    cm_nbComponents := cc_current_label s - 1\<rparr>)))"

definition call_connectedComponents2 ::
  "vpConnectedConnexityType \<Rightarrow> caller_memory \<Rightarrow> caller_memory" where
  "call_connectedComponents2 connexity m =
     (if getSize (cm_image m) = 0 then m
      else
        (let s = two_pass (cm_image m) connexity
         in m\<lparr>cm_image := tp_I s,
               cm_labels := strip_border (tp_labels_copy s) (getHeight (tp_I s))
                              (getWidth (tp_I s)),
               cm_nbComponents := tp_current_label s - 1\<rparr>))"

section \<open>The shape of a contour tree\<close>

text \<open>
  What the nesting rule keeps true of the heap of contours while the raster is
  scanned: addresses from \<open>n\<close> on are unused; the root at address 0 is of kind Hole
  and its \<open>m_parent\<close> is still without a value; no contour is of kind Background; a
  child in a list of children points back to that parent, a parent pointer leads to a
  contour that lists the child; and child and parent are of opposite kinds.
\<close>

definition kinds_ok :: "vpContourType \<Rightarrow> vpContourType \<Rightarrow> bool" where
  "kinds_ok child parent =
     ((child = CONTOUR_OUTER \<and> parent = CONTOUR_HOLE) \<or>
      (child = CONTOUR_HOLE \<and> parent = CONTOUR_OUTER))"

definition tree_inv :: "heap \<Rightarrow> nat \<Rightarrow> bool" where
  "tree_inv h n =
     ((\<forall>a. n \<le> a \<longrightarrow> h a = None) \<and>
      (\<exists>r. h 0 = Some r \<and> m_contourType r = CONTOUR_HOLE \<and> m_parent r = Indeterminate) \<and>
      (\<forall>a c. h a = Some c \<longrightarrow> m_contourType c \<noteq> CONTOUR_BACKGROUND) \<and>
      (\<forall>p pc a. h p = Some pc \<longrightarrow> a \<in> set (m_children pc) \<longrightarrow>
         (\<exists>c. h a = Some c \<and> m_parent c = Addr p
              \<and> kinds_ok (m_contourType c) (m_contourType pc))) \<and>
      (\<forall>a c p. h a = Some c \<longrightarrow> m_parent c = Addr p \<longrightarrow>
         (\<exists>pc. h p = Some pc \<and> a \<in> set (m_children pc)
              \<and> kinds_ok (m_contourType c) (m_contourType pc))))"

text \<open>
  The nodes of a tree below its root, the caller's contour: the contours that are
  reached from the children of the root through the lists of children.
\<close>

inductive_set tree_nodes :: "heap \<Rightarrow> nat list \<Rightarrow> nat set" for h :: heap and cs :: "nat list" where
  tree_top: "a \<in> set cs \<Longrightarrow> a \<in> tree_nodes h cs"
| tree_child: "p \<in> tree_nodes h cs \<Longrightarrow> h p = Some pc \<Longrightarrow> a \<in> set (m_children pc)
               \<Longrightarrow> a \<in> tree_nodes h cs"

definition in_tree :: "contour_tree \<Rightarrow> nat \<Rightarrow> bool" where
  "in_tree t a = (a \<in> tree_nodes (nodes t) (m_children (top t)))"

definition contour_kind :: "contour_tree \<Rightarrow> nat \<Rightarrow> vpContourType option" where
  "contour_kind t a = map_option m_contourType (nodes t a)"

text \<open>The address that \<open>m_parent\<close> holds, if it holds one.\<close>

definition contour_parent :: "contour_tree \<Rightarrow> nat \<Rightarrow> nat option" where
  "contour_parent t a =
     (case nodes t a of
        None \<Rightarrow> None
      | Some c \<Rightarrow> (case m_parent c of Addr p \<Rightarrow> Some p | Null \<Rightarrow> None | Indeterminate \<Rightarrow> None))"

definition contour_children :: "contour_tree \<Rightarrow> nat \<Rightarrow> nat list" where
  "contour_children t a = (case nodes t a of None \<Rightarrow> [] | Some c \<Rightarrow> m_children c)"

text \<open>A contour that the caller has default-constructed, as the test does.\<close>

definition no_contour :: contour_tree where
  "no_contour = \<lparr>top = new_vpContour, nodes = Map.empty\<rparr>"

text \<open>
  What a caller that started from a default-constructed contour holds after the call,
  and the failure a call ended with, if it ended with one.
\<close>

definition the_tree :: "failure + contour_tree \<Rightarrow> contour_tree" where
  "the_tree r = (case r of Inl e \<Rightarrow> no_contour | Inr t \<Rightarrow> t)"

definition failure_of :: "failure + 'a \<Rightarrow> failure option" where
  "failure_of r = (case r of Inl e \<Rightarrow> Some e | Inr x \<Rightarrow> None)"

definition ring_with_island :: "8 word vpImage" where
  "ring_with_island =
     [[1, 1, 1, 1, 1, 1],
      [1, 0, 0, 0, 0, 1],
      [1, 0, 1, 1, 0, 1],
      [1, 0, 0, 0, 0, 1],
      [1, 1, 1, 1, 1, 1]]"

definition diagonal_pair :: "8 word vpImage" where
  "diagonal_pair = [[1, 0], [0, 1]]"

definition sample_memory :: caller_memory where
  "sample_memory =
     \<lparr>cm_image = [[1, 1], [0, 1]], cm_contour = no_contour, cm_labels = [], cm_nbComponents = 0\<rparr>"

section \<open>Connected pixels\<close>







text \<open>
  Connectivity as the specification has it, on the caller's raster: under the
  4-connexity two positions are adjacent when they share an edge, under the
  8-connexity when they share an edge or a corner; a same-value path is a chain of
  adjacent positions of the raster that all hold the same value.
\<close>

definition adjacent :: "vpConnectedConnexityType \<Rightarrow> nat \<times> nat \<Rightarrow> nat \<times> nat \<Rightarrow> bool" where
  "adjacent connexity p q =
     (let di = \<bar>int (fst p) - int (fst q)\<bar>; dj = \<bar>int (snd p) - int (snd q)\<bar>
      in if connexity = CONNECTED_CONNEXITY_4 then di + dj = 1 else max di dj = 1)"









section \<open>Properties\<close>

lemma to_uchar_zero_iff: "to_uchar v = 0 \<longleftrightarrow> v mod 256 = 0"
  by (simp add: to_uchar_def word_of_int_eq_0_iff dvd_eq_mod_eq_0)

subsection \<open>The neighbour probe\<close>

lemma active_cases:
  "active cast d I p = invalid_point \<or>
   (\<exists>yy xx. active cast d I p = (int yy, int xx) \<and> yy < getHeight I \<and> xx < getWidth I
      \<and> pix I yy xx mod 256 \<noteq> 0)"
proof -
  define yy where "yy = cast (fst p + diry ! dir_index d)"
  define xx where "xx = cast (snd p + dirx ! dir_index d)"
  show ?thesis
  proof (cases "active cast d I p = invalid_point")
    case True
    then show ?thesis by simp
  next
    case False
    then have b: "xx < int (getWidth I)" "yy < int (getHeight I)" and nn: "0 \<le> yy" "0 \<le> xx"
      and nz: "to_uchar (pix I (nat yy) (nat xx)) \<noteq> 0"
      and r: "active cast d I p = (yy, xx)"
      by (auto simp: active_def Let_def yy_def xx_def split: if_splits)
    have "active cast d I p = (int (nat yy), int (nat xx))" using r nn by simp
    moreover have "nat yy < getHeight I" "nat xx < getWidth I" using b nn by linarith+
    moreover have "pix I (nat yy) (nat xx) mod 256 \<noteq> 0"
      using nz by (simp add: to_uchar_zero_iff)
    ultimately show ?thesis by blast
  qed
qed

text \<open>
  C10.  \<open>vpDirection::active\<close> is a total function whose result, whatever the cast
  yields, is the sentinel \<open>(-1, -1)\<close> or a coordinate inside the raster, and it is a
  coordinate only where the stored \<open>int\<close> pixel is nonzero modulo 256: a pixel
  holding \<open>256 * k\<close> is taken for background.
\<close>

theorem active_in_bounds:
  "(active cast d I p = (-1, -1) \<or>
      (\<exists>yy xx. active cast d I p = (int yy, int xx) \<and> yy < getHeight I \<and> xx < getWidth I
         \<and> pix I yy xx mod 256 \<noteq> 0))
   \<and> (\<forall>k. pix I (nat (cast (fst p + diry ! dir_index d)))
               (nat (cast (snd p + dirx ! dir_index d))) = 256 * k
          \<longrightarrow> active cast d I p = (-1, -1))"
proof
  show "active cast d I p = (-1, -1) \<or>
      (\<exists>yy xx. active cast d I p = (int yy, int xx) \<and> yy < getHeight I \<and> xx < getWidth I
         \<and> pix I yy xx mod 256 \<noteq> 0)"
    using active_cases [of cast d I p] by (simp add: invalid_point_def)
  show "\<forall>k. pix I (nat (cast (fst p + diry ! dir_index d)))
               (nat (cast (snd p + dirx ! dir_index d))) = 256 * k
          \<longrightarrow> active cast d I p = (-1, -1)"
    by (auto simp: active_def Let_def invalid_point_def to_uchar_zero_iff)
qed

theorem active_in_bounds_witness:
  "pix [[1, 256 :: int]] (nat (to_uint (fst (0, 0) + diry ! dir_index EAST)))
       (nat (to_uint (snd (0, 0) + dirx ! dir_index EAST))) = 256 * 1
   \<and> active to_uint EAST [[1, 256]] (0, 0) = (-1, -1)
   \<and> active to_uint EAST [[1, 5]] (0, 0) = (0, 1)"
proof -
  have h: "pix [[1, 256 :: int]] (nat (to_uint (fst (0, 0) + diry ! dir_index EAST)))
       (nat (to_uint (snd (0, 0) + dirx ! dir_index EAST))) = 256 * 1"
    by (simp add: pix_def to_uint_def dirx_def diry_def)
  have "active to_uint EAST [[1, 256]] (0, 0) = (-1, -1)"
    using active_in_bounds [of to_uint EAST "[[1, 256]]" "(0, 0)"] h by blast
  moreover have "active to_uint EAST [[1, 5]] (0, 0) = (0, 1)"
    by code_simp
  ultimately show ?thesis using h by simp
qed

subsection \<open>The nesting rule keeps the shape of the tree\<close>

lemma tree_inv_mono: "tree_inv h n \<Longrightarrow> n \<le> m \<Longrightarrow> tree_inv h m"
  unfolding tree_inv_def by (meson le_trans)

lemma tree_inv_fresh: "tree_inv h n \<Longrightarrow> h n = None"
  by (simp add: tree_inv_def)

lemma tree_inv_child_allocated:
  "tree_inv h n \<Longrightarrow> h p = Some pc \<Longrightarrow> n \<notin> set (m_children pc)"
  unfolding tree_inv_def by (metis option.distinct(1) order_refl)

lemma tree_inv_leaked:
  assumes "tree_inv h n" "T \<noteq> CONTOUR_BACKGROUND"
  shows "tree_inv (h(n \<mapsto> \<lparr>m_contourType = T, m_children = [], m_parent = Null, m_points = pts\<rparr>)) (Suc n)"
proof -
  let ?B = "\<lparr>m_contourType = T, m_children = [], m_parent = Null, m_points = pts\<rparr>"
  let ?h = "h(n \<mapsto> ?B)"
  have fresh: "h n = None" using assms(1) by (rule tree_inv_fresh)
  have n0: "n \<noteq> 0" using assms(1) fresh by (auto simp: tree_inv_def)
  have 1: "\<forall>a. Suc n \<le> a \<longrightarrow> ?h a = None"
    using assms(1) by (auto simp: tree_inv_def)
  have 2: "\<exists>r. ?h 0 = Some r \<and> m_contourType r = CONTOUR_HOLE \<and> m_parent r = Indeterminate"
    using assms(1) n0 by (auto simp: tree_inv_def)
  have 3: "\<forall>a c. ?h a = Some c \<longrightarrow> m_contourType c \<noteq> CONTOUR_BACKGROUND"
    using assms by (auto simp: tree_inv_def)
  have 4: "\<exists>c. ?h a = Some c \<and> m_parent c = Addr p \<and> kinds_ok (m_contourType c) (m_contourType pc)"
    if "?h p = Some pc" "a \<in> set (m_children pc)" for p pc a
  proof -
    from that have p: "p \<noteq> n" "h p = Some pc" by (auto split: if_splits)
    with assms(1) that(2) obtain c where c: "h a = Some c" "m_parent c = Addr p"
      "kinds_ok (m_contourType c) (m_contourType pc)"
      unfolding tree_inv_def by blast
    with fresh have "a \<noteq> n" by auto
    with c show ?thesis by simp
  qed
  have 5: "\<exists>pc. ?h p = Some pc \<and> a \<in> set (m_children pc) \<and> kinds_ok (m_contourType c) (m_contourType pc)"
    if "?h a = Some c" "m_parent c = Addr p" for a c p
  proof -
    from that have a: "a \<noteq> n" "h a = Some c" by (auto split: if_splits)
    with assms(1) that(2) obtain pc where pc: "h p = Some pc" "a \<in> set (m_children pc)"
      "kinds_ok (m_contourType c) (m_contourType pc)"
      unfolding tree_inv_def by blast
    with fresh have "p \<noteq> n" by auto
    with pc show ?thesis by simp
  qed
  show ?thesis
    unfolding tree_inv_def using 1 2 3 4 5 by blast
qed

lemma tree_inv_attached:
  assumes inv: "tree_inv h n" and P: "h P = Some PC" and k: "kinds_ok T (m_contourType PC)"
  shows "tree_inv (h(n \<mapsto> \<lparr>m_contourType = T, m_children = [], m_parent = Addr P, m_points = pts\<rparr>,
                    P \<mapsto> PC\<lparr>m_children := m_children PC @ [n]\<rparr>)) (Suc n)"
proof -
  let ?B = "\<lparr>m_contourType = T, m_children = [], m_parent = Addr P, m_points = pts\<rparr>"
  let ?h = "h(n \<mapsto> ?B, P \<mapsto> PC\<lparr>m_children := m_children PC @ [n]\<rparr>)"
  have fresh: "h n = None" using inv by (rule tree_inv_fresh)
  have Pn: "P \<noteq> n" using P fresh by auto
  have n0: "n \<noteq> 0" using inv fresh by (auto simp: tree_inv_def)
  have T: "T \<noteq> CONTOUR_BACKGROUND" using k by (auto simp: kinds_ok_def)
  have 1: "\<forall>a. Suc n \<le> a \<longrightarrow> ?h a = None"
    using inv P by (auto simp: tree_inv_def)
  have 2: "\<exists>r. ?h 0 = Some r \<and> m_contourType r = CONTOUR_HOLE \<and> m_parent r = Indeterminate"
    using inv n0 P by (auto simp: tree_inv_def)
  have 3: "\<forall>a c. ?h a = Some c \<longrightarrow> m_contourType c \<noteq> CONTOUR_BACKGROUND"
    using inv T P by (auto simp: tree_inv_def)
  have 4: "\<exists>c. ?h a = Some c \<and> m_parent c = Addr p \<and> kinds_ok (m_contourType c) (m_contourType pc)"
    if hp: "?h p = Some pc" and a: "a \<in> set (m_children pc)" for p pc a
  proof (cases "a = n")
    case True
    have "p = P"
    proof (rule ccontr)
      assume "p \<noteq> P"
      with hp a have "p \<noteq> n" "h p = Some pc" by (auto split: if_splits)
      with inv a True show False using tree_inv_child_allocated by blast
    qed
    with hp True Pn k show ?thesis by auto
  next
    case False
    from hp a Pn have pn: "p \<noteq> n" by (auto split: if_splits)
    obtain pc0 where pc0: "h p = Some pc0" "a \<in> set (m_children pc0)" "m_contourType pc0 = m_contourType pc"
      using hp a False pn P by (cases "p = P") auto
    with inv obtain c where c: "h a = Some c" "m_parent c = Addr p"
      "kinds_ok (m_contourType c) (m_contourType pc)"
      unfolding tree_inv_def by metis
    show ?thesis
    proof (cases "a = P")
      case True
      with c P False show ?thesis by auto
    next
      case aP: False
      with c False show ?thesis by auto
    qed
  qed
  have 5: "\<exists>pc. ?h p = Some pc \<and> a \<in> set (m_children pc) \<and> kinds_ok (m_contourType c) (m_contourType pc)"
    if ha: "?h a = Some c" and par: "m_parent c = Addr p" for a c p
  proof (cases "a = n")
    case True
    with ha par Pn have "p = P" "m_contourType c = T" by auto
    with True k show ?thesis by auto
  next
    case False
    obtain c0 where c0: "h a = Some c0" "m_parent c0 = Addr p" "m_contourType c0 = m_contourType c"
      using ha par False P by (cases "a = P") auto
    with inv obtain pc where pc: "h p = Some pc" "a \<in> set (m_children pc)"
      "kinds_ok (m_contourType c) (m_contourType pc)"
      unfolding tree_inv_def by metis
    with fresh have pn: "p \<noteq> n" by auto
    show ?thesis
    proof (cases "p = P")
      case True
      with pc P show ?thesis by auto
    next
      case False
      with pc pn show ?thesis by auto
    qed
  qed
  show ?thesis
    unfolding tree_inv_def using 1 2 3 4 5 by blast
qed


lemma parent_for_outer_children [simp]:
  "parent_for_outer (c\<lparr>m_children := x\<rparr>) a = parent_for_outer c a"
  by (simp add: parent_for_outer_def split: vpContourType.splits)

lemma parent_for_hole_children [simp]:
  "parent_for_hole (c\<lparr>m_children := x\<rparr>) a = parent_for_hole c a"
  by (simp add: parent_for_hole_def split: vpContourType.splits)

lemma rule_parent_ok:
  assumes inv: "tree_inv h n" and BP: "h bp = Some BP"
    and rule: "(T = CONTOUR_OUTER \<and> rule = parent_for_outer) \<or> (T = CONTOUR_HOLE \<and> rule = parent_for_hole)"
    and r: "rule BP bp = Some (Addr P)"
  shows "\<exists>PC. h P = Some PC \<and> kinds_ok T (m_contourType PC)"
proof -
  have nb: "m_contourType BP \<noteq> CONTOUR_BACKGROUND"
    using inv BP by (auto simp: tree_inv_def)
  have par: "\<exists>pc. h q = Some pc \<and> kinds_ok (m_contourType BP) (m_contourType pc)"
    if "m_parent BP = Addr q" for q
    using inv BP that unfolding tree_inv_def by blast
  show ?thesis
  proof (cases "m_contourType BP")
    case CONTOUR_OUTER
    with rule r par BP show ?thesis
      by (auto simp: parent_for_outer_def parent_for_hole_def kinds_ok_def)
  next
    case CONTOUR_HOLE
    with rule r par BP show ?thesis
      by (auto simp: parent_for_outer_def parent_for_hole_def kinds_ok_def)
  next
    case CONTOUR_BACKGROUND
    with nb show ?thesis by simp
  qed
qed

lemma rule_not_none:
  assumes inv: "tree_inv h n" and BP: "h bp = Some BP"
    and rule: "rule = parent_for_outer \<or> rule = parent_for_hole"
  shows "rule BP bp \<noteq> None"
proof -
  have "m_contourType BP \<noteq> CONTOUR_BACKGROUND"
    using inv BP by (auto simp: tree_inv_def)
  with rule show ?thesis
    by (cases "m_contourType BP") (auto simp: parent_for_outer_def parent_for_hole_def)
qed

lemma attach_result:
  assumes inv: "tree_inv h n"
    and rule: "(T = CONTOUR_OUTER \<and> rule = parent_for_outer) \<or> (T = CONTOUR_HOLE \<and> rule = parent_for_hole)"
    and att: "attach rule n bp (set_type n T (h(n \<mapsto> new_vpContour))) = Inr h2"
  shows "\<exists>P PC BP. h bp = Some BP \<and> rule BP bp = Some (Addr P) \<and> h P = Some PC
      \<and> kinds_ok T (m_contourType PC)
      \<and> h2 = h(n \<mapsto> \<lparr>m_contourType = T, m_children = [], m_parent = Addr P, m_points = []\<rparr>,
               P \<mapsto> PC\<lparr>m_children := m_children PC @ [n]\<rparr>)"
proof -
  let ?B = "\<lparr>m_contourType = T, m_children = [], m_parent = Null, m_points = []\<rparr>"
  let ?h1 = "h(n \<mapsto> ?B)"
  have h1: "set_type n T (h(n \<mapsto> new_vpContour)) = ?h1"
    by (simp add: set_type_def new_vpContour_def)
  have fresh: "h n = None" using inv by (rule tree_inv_fresh)
  from att obtain BP' where BP': "?h1 bp = Some BP'"
    unfolding h1 attach_def by (auto split: option.splits)
  have bpn: "bp \<noteq> n"
  proof
    assume "bp = n"
    with BP' have "BP' = ?B" by simp
    with rule have "rule BP' bp = Some Null"
      by (auto simp: parent_for_outer_def parent_for_hole_def)
    with att BP' show False
      unfolding h1 attach_def by (simp add: setParent_def)
  qed
  with BP' have BP: "h bp = Some BP'" by simp
  have "rule BP' bp \<noteq> None"
    using rule_not_none [OF inv BP] rule by blast
  moreover have "rule BP' bp \<noteq> Some Null" "rule BP' bp \<noteq> Some Indeterminate"
    using att BP' unfolding h1 attach_def by (auto simp: setParent_def)
  ultimately obtain P where P: "rule BP' bp = Some (Addr P)"
    by (cases "rule BP' bp"; cases "the (rule BP' bp)") auto
  from rule_parent_ok [OF inv BP rule P] obtain PC where PC: "h P = Some PC"
    "kinds_ok T (m_contourType PC)" by blast
  with fresh have Pn: "P \<noteq> n" by auto
  have "setParent n (Addr P) ?h1
      = Inr (h(n \<mapsto> \<lparr>m_contourType = T, m_children = [], m_parent = Addr P, m_points = []\<rparr>,
               P \<mapsto> PC\<lparr>m_children := m_children PC @ [n]\<rparr>))"
    using Pn PC by (simp add: setParent_def)
  with att BP' P have "h2 = h(n \<mapsto> \<lparr>m_contourType = T, m_children = [], m_parent = Addr P, m_points = []\<rparr>,
               P \<mapsto> PC\<lparr>m_children := m_children PC @ [n]\<rparr>)"
    unfolding h1 attach_def by simp
  with BP P PC show ?thesis by blast
qed

lemma detach_attached:
  assumes inv: "tree_inv h n" and P: "h P = Some PC" and BP: "h bp = Some BP"
    and C: "C = m_children PC @ [n] \<or> C = m_children PC"
    and rule: "rule = parent_for_outer \<or> rule = parent_for_hole"
    and det: "detach rule n bp (h(n \<mapsto> B, P \<mapsto> PC\<lparr>m_children := C\<rparr>)) = Inr g"
  shows "g = h(n \<mapsto> B, P \<mapsto> PC\<lparr>m_children := (if rule BP bp = Some (Addr P) then m_children PC else C)\<rparr>)"
proof -
  let ?g = "h(n \<mapsto> B, P \<mapsto> PC\<lparr>m_children := C\<rparr>)"
  have fresh: "h n = None" using inv by (rule tree_inv_fresh)
  have Pn: "P \<noteq> n" and bpn: "bp \<noteq> n" using P BP fresh by auto
  have nPC: "n \<notin> set (m_children PC)" using tree_inv_child_allocated [OF inv P] .
  have rmC: "removeAll n C = m_children PC" using C nPC by auto
  obtain BP' where BP': "?g bp = Some BP'" "rule BP' bp = rule BP bp"
    using BP P bpn rule by (cases "bp = P") auto
  show ?thesis
  proof (cases "rule BP bp")
    case None
    with rule_not_none [OF inv BP rule] show ?thesis by simp
  next
    case (Some par)
    show ?thesis
    proof (cases par)
      case Null
      with Some det BP' show ?thesis by (auto simp: detach_def removeParent_def)
    next
      case Indeterminate
      with Some det BP' show ?thesis by (auto simp: detach_def removeParent_def)
    next
      case (Addr q)
      with \<open>rule BP bp = Some par\<close> have r: "rule BP bp = Some (Addr q)" by simp
      have "\<exists>QC. h q = Some QC"
      proof (cases "rule = parent_for_outer")
        case True
        with rule_parent_ok [OF inv BP, of CONTOUR_OUTER rule q] r show ?thesis by blast
      next
        case False
        with rule have "rule = parent_for_hole" by simp
        with rule_parent_ok [OF inv BP, of CONTOUR_HOLE rule q] r show ?thesis by blast
      qed
      then obtain QC where QC: "h q = Some QC" by blast
      with fresh have qn: "q \<noteq> n" by auto
      show ?thesis
      proof (cases "q = P")
        case True
        with det BP' r rmC show ?thesis
          by (auto simp: detach_def removeParent_def)
      next
        case False
        have "n \<notin> set (m_children QC)" using tree_inv_child_allocated [OF inv QC] .
        then have "removeAll n (m_children QC) = m_children QC" by simp
        with det BP' r False qn QC have "g = ?g(q \<mapsto> QC)"
          by (auto simp: detach_def removeParent_def)
        moreover have "?g(q \<mapsto> QC) = ?g"
          using QC False qn by (intro ext) auto
        ultimately show ?thesis using r False by simp
      qed
    qed
  qed
qed

lemma rollback_restores:
  assumes inv: "tree_inv h n" and P: "h P = Some PC" and BP: "h bp = Some BP"
    and rule: "(isOuter \<and> parent_for_outer BP bp = Some (Addr P))
               \<or> (\<not> isOuter \<and> isHole \<and> parent_for_hole BP bp = Some (Addr P))"
    and hs: "heap s = h(n \<mapsto> B, P \<mapsto> PC\<lparr>m_children := m_children PC @ [n]\<rparr>)"
    and rb: "rollback i j isOuter isHole n bp s = Inr s'"
  shows "heap s' = h \<and> borderMap s' = borderMap s \<and> next_addr s' = next_addr s"
proof -
  have fresh: "h n = None" using inv by (rule tree_inv_fresh)
  have Pn: "P \<noteq> n" using P fresh by auto
  let ?B = "B\<lparr>m_points := []\<rparr>"
  let ?g0 = "h(n \<mapsto> ?B, P \<mapsto> PC\<lparr>m_children := m_children PC @ [n]\<rparr>)"
  have hn: "heap s n = Some B" using hs Pn by simp
  have g0: "(heap s)(n \<mapsto> ?B) = ?g0"
    using hs Pn by (auto simp: fun_upd_twist)
  have "\<exists>g1 g2. (if isOuter then detach parent_for_outer n bp ?g0 else Inr ?g0) = Inr g1
      \<and> (if isHole then detach parent_for_hole n bp g1 else Inr g1) = Inr g2
      \<and> s' = s\<lparr>img := setpix (img s) i j (- nbd s), heap := g2(n := None)\<rparr>"
    using rb unfolding rollback_def Let_def
    by (cases isOuter; cases isHole; simp add: hn g0 split: sum.splits)
  then obtain g1 g2
    where g1: "(if isOuter then detach parent_for_outer n bp ?g0 else Inr ?g0) = Inr g1"
      and g2: "(if isHole then detach parent_for_hole n bp g1 else Inr g1) = Inr g2"
      and s': "s' = s\<lparr>img := setpix (img s) i j (- nbd s), heap := g2(n := None)\<rparr>"
    by blast
  define C1 where "C1 = (if isOuter \<and> parent_for_outer BP bp = Some (Addr P) then m_children PC
                         else m_children PC @ [n])"
  have g1': "g1 = h(n \<mapsto> ?B, P \<mapsto> PC\<lparr>m_children := C1\<rparr>)"
  proof (cases isOuter)
    case True
    with g1 have "detach parent_for_outer n bp ?g0 = Inr g1" by simp
    from detach_attached [OF inv P BP _ _ this] True show ?thesis by (simp add: C1_def)
  next
    case False
    with g1 show ?thesis by (simp add: C1_def)
  qed
  have C1: "C1 = m_children PC @ [n] \<or> C1 = m_children PC" by (simp add: C1_def)
  have g2': "g2 = h(n \<mapsto> ?B, P \<mapsto> PC)"
  proof (cases isHole)
    case True
    with g2 have "detach parent_for_hole n bp (h(n \<mapsto> ?B, P \<mapsto> PC\<lparr>m_children := C1\<rparr>)) = Inr g2"
      by (simp add: g1')
    from detach_attached [OF inv P BP C1 _ this] rule True show ?thesis
      by (auto simp: C1_def)
  next
    case False
    with g2 rule show ?thesis by (auto simp: g1' C1_def)
  qed
  have "g2(n := None) = h"
    using fresh P by (intro ext) (auto simp: g2')
  with s' show ?thesis by simp
qed


lemma trace_border_inv:
  assumes inv: "tree_inv h n" and P: "h P = Some PC" and k: "kinds_ok T (m_contourType PC)"
    and BP: "h bp = Some BP"
    and rule: "(isOuter \<and> parent_for_outer BP bp = Some (Addr P))
               \<or> (\<not> isOuter \<and> isHole \<and> parent_for_hole BP bp = Some (Addr P))"
    and hs: "heap s = h(n \<mapsto> \<lparr>m_contourType = T, m_children = [], m_parent = Addr P, m_points = []\<rparr>,
                        P \<mapsto> PC\<lparr>m_children := m_children PC @ [n]\<rparr>)"
    and tr: "trace_border cast fuel i j isOuter isHole n bp from s = Inr s'"
  shows "next_addr s' = next_addr s \<and> tree_inv (heap s') (Suc n)
     \<and> ((heap s' = h \<and> borderMap s' = borderMap s)
        \<or> (\<exists>pts. heap s' = h(n \<mapsto> \<lparr>m_contourType = T, m_children = [], m_parent = Addr P, m_points = pts\<rparr>,
                              P \<mapsto> PC\<lparr>m_children := m_children PC @ [n]\<rparr>)))"
proof -
  let ?B = "\<lambda>pts. \<lparr>m_contourType = T, m_children = [], m_parent = Addr P, m_points = pts\<rparr>"
  let ?att = "\<lambda>pts. h(n \<mapsto> ?B pts, P \<mapsto> PC\<lparr>m_children := m_children PC @ [n]\<rparr>)"
  have fresh: "h n = None" using inv by (rule tree_inv_fresh)
  have Pn: "P \<noteq> n" using P fresh by auto
  have hn: "heap s n = Some (?B [])" using hs Pn by simp
  have upd: "(heap s)(n \<mapsto> ?B pts) = ?att pts" for pts
    using hs Pn by (auto simp: fun_upd_twist)
  from tr hn obtain ok I' points
    where fb: "followBorder cast fuel (img s) (int i, int j) from [] (nbd s) = Inr (ok, I', points)"
    by (auto simp: trace_border_def Let_def split: sum.splits)
  define s1 where "s1 = s\<lparr>img := I', heap := ?att points\<rparr>"
  have hs1: "heap s1 = ?att points" by (simp add: s1_def)
  show ?thesis
  proof (cases ok)
    case True
    define pts where "pts = (if points = [] then [(int i, int j)] else points)"
    have "heap s' = ?att pts \<and> next_addr s' = next_addr s"
      using tr hn fb True Pn
      by (auto simp: trace_border_def Let_def upd pts_def fun_upd_twist)
    moreover have "tree_inv (?att pts) (Suc n)"
      using tree_inv_attached [OF inv P k] .
    ultimately show ?thesis by auto
  next
    case False
    with tr hn fb have rb: "rollback i j isOuter isHole n bp s1 = Inr s'"
      by (simp add: trace_border_def Let_def upd s1_def)
    from rollback_restores [OF inv P BP rule hs1 rb]
    have "heap s' = h" "borderMap s' = borderMap s" "next_addr s' = next_addr s"
      by (simp_all add: s1_def)
    moreover have "tree_inv h (Suc n)" using inv by (rule tree_inv_mono) simp
    ultimately show ?thesis by simp
  qed
qed

lemma start_border_inv:
  assumes inv: "tree_inv (heap s) (next_addr s)" and flags: "isOuter \<or> isHole"
    and sb: "start_border cast fuel i j fji isOuter isHole s = Inr s'"
  shows "next_addr s' = Suc (next_addr s) \<and> tree_inv (heap s') (next_addr s')
     \<and> (heap s' (next_addr s) = None \<longrightarrow> heap s' = heap s \<and> borderMap s' = borderMap s)
     \<and> (\<forall>c. heap s' (next_addr s) = Some c \<longrightarrow>
           m_contourType c = (if isOuter then CONTOUR_OUTER else CONTOUR_HOLE))"
proof -
  define n where "n = next_addr s"
  define h where "h = heap s"
  define T where "T = (if isOuter then CONTOUR_OUTER else CONTOUR_HOLE)"
  define rule where "rule = (if isOuter then parent_for_outer else parent_for_hole)"
  define l where "l = (if \<not> isOuter \<and> fji > 1 then fji else lnbd s)"
  have inv': "tree_inv h n" using inv by (simp add: h_def n_def)
  have fresh: "h n = None" using inv' by (rule tree_inv_fresh)
  have TR: "(T = CONTOUR_OUTER \<and> rule = parent_for_outer) \<or> (T = CONTOUR_HOLE \<and> rule = parent_for_hole)"
    by (simp add: T_def rule_def)
  have Tnb: "T \<noteq> CONTOUR_BACKGROUND" by (simp add: T_def)
  have h1: "set_type n T (h(n \<mapsto> new_vpContour))
      = h(n \<mapsto> \<lparr>m_contourType = T, m_children = [], m_parent = Null, m_points = []\<rparr>)"
    by (simp add: set_type_def new_vpContour_def)
  show ?thesis
  proof (cases "borderMap s l")
    case None
    have "heap s' = h(n \<mapsto> \<lparr>m_contourType = T, m_children = [], m_parent = Null, m_points = []\<rparr>)
        \<and> next_addr s' = Suc n"
      using sb None
      by (auto simp: start_border_def Let_def l_def T_def h_def n_def set_type_def
          new_vpContour_def split: if_splits)
    moreover have "tree_inv (h(n \<mapsto> \<lparr>m_contourType = T, m_children = [], m_parent = Null, m_points = []\<rparr>)) (Suc n)"
      using tree_inv_leaked [OF inv' Tnb] .
    ultimately show ?thesis by (simp add: n_def T_def)
  next
    case (Some bp)
    define s0 where "s0 = s\<lparr>heap := h(n \<mapsto> new_vpContour), next_addr := Suc n, nbd := nbd s + 1, lnbd := l\<rparr>"
    from sb Some obtain h2 frm
      where att: "attach rule n bp (set_type n T (h(n \<mapsto> new_vpContour))) = Inr h2"
        and tr: "trace_border cast fuel i j isOuter isHole n bp frm (s0\<lparr>heap := h2\<rparr>) = Inr s'"
      by (auto simp: start_border_def Let_def l_def T_def rule_def h_def n_def s0_def
          split: if_splits sum.splits)
    from attach_result [OF inv' TR att] obtain P PC BP
      where BP: "h bp = Some BP" and r: "rule BP bp = Some (Addr P)" and P: "h P = Some PC"
        and k: "kinds_ok T (m_contourType PC)"
        and h2: "h2 = h(n \<mapsto> \<lparr>m_contourType = T, m_children = [], m_parent = Addr P, m_points = []\<rparr>,
                       P \<mapsto> PC\<lparr>m_children := m_children PC @ [n]\<rparr>)"
      by blast
    have rule': "(isOuter \<and> parent_for_outer BP bp = Some (Addr P))
               \<or> (\<not> isOuter \<and> isHole \<and> parent_for_hole BP bp = Some (Addr P))"
      using r flags by (auto simp: rule_def split: if_splits)
    have hs: "heap (s0\<lparr>heap := h2\<rparr>) = h(n \<mapsto> \<lparr>m_contourType = T, m_children = [], m_parent = Addr P, m_points = []\<rparr>,
                       P \<mapsto> PC\<lparr>m_children := m_children PC @ [n]\<rparr>)"
      by (simp add: h2)
    have Pn: "P \<noteq> n" using P fresh by auto
    from trace_border_inv [OF inv' P k BP rule' hs tr]
    have "next_addr s' = Suc n" "tree_inv (heap s') (Suc n)"
      and alt: "(heap s' = h \<and> borderMap s' = borderMap s)
        \<or> (\<exists>pts. heap s' = h(n \<mapsto> \<lparr>m_contourType = T, m_children = [], m_parent = Addr P, m_points = pts\<rparr>,
                              P \<mapsto> PC\<lparr>m_children := m_children PC @ [n]\<rparr>))"
      by (simp_all add: s0_def)
    moreover from alt have "heap s' n = None \<longrightarrow> heap s' = h \<and> borderMap s' = borderMap s"
      using Pn by auto
    moreover from alt have "\<forall>c. heap s' n = Some c \<longrightarrow> m_contourType c = T"
      using Pn fresh by auto
    ultimately show ?thesis by (simp add: n_def h_def T_def)
  qed
qed

lemma for_loop_inv:
  assumes "\<And>k s s'. Q s \<Longrightarrow> body k s = Inr s' \<Longrightarrow> Q s'"
    and "Q s" and "for_loop ks body s = Inr s'"
  shows "Q s'"
  using assms(2,3)
proof (induction ks arbitrary: s)
  case Nil
  then show ?case by simp
next
  case (Cons k ks)
  from Cons.prems(2) obtain s1 where s1: "body k s = Inr s1" "for_loop ks body s1 = Inr s'"
    by (auto split: sum.splits)
  from assms(1) [OF Cons.prems(1) s1(1)] have "Q s1" .
  from Cons.IH [OF this s1(2)] show ?case .
qed

lemma scan_pixel_inv:
  assumes inv: "tree_inv (heap s) (next_addr s)" and sp: "scan_pixel cast fuel i j s = Inr s'"
  shows "tree_inv (heap s') (next_addr s')"
proof -
  let ?o = "isOuterBorderStart (img s) i j" and ?h = "isHoleBorderStart (img s) i j"
  show ?thesis
  proof (cases "?o \<or> ?h")
    case True
    with sp obtain s1 where s1: "start_border cast fuel i j (pix (img s) i j) ?o ?h s = Inr s1"
      and s': "heap s' = heap s1" "next_addr s' = next_addr s1"
      by (auto simp: scan_pixel_def Let_def split: sum.splits if_splits)
    from start_border_inv [OF inv True s1] s' show ?thesis by auto
  next
    case False
    with sp have "heap s' = heap s" "next_addr s' = next_addr s"
      by (auto simp: scan_pixel_def Let_def split: if_splits)
    with inv show ?thesis by simp
  qed
qed

lemma scan_row_inv:
  assumes inv: "tree_inv (heap s) (next_addr s)" and sr: "scan_row cast fuel i s = Inr s'"
  shows "tree_inv (heap s') (next_addr s')"
proof -
  have "tree_inv (heap (s\<lparr>lnbd := 1\<rparr>)) (next_addr (s\<lparr>lnbd := 1\<rparr>))" using inv by simp
  from for_loop_inv [where Q = "\<lambda>s. tree_inv (heap s) (next_addr s)", OF _ this sr [unfolded scan_row_def]]
  show ?thesis using scan_pixel_inv by blast
qed

lemma initial_scan_inv: "tree_inv (heap (initial_scan I)) (next_addr (initial_scan I))"
  by (auto simp: tree_inv_def initial_scan_def new_vpContour_of_def)

lemma extractContours_inv:
  assumes "extractContours cast fuel I contour = Inr t" "getSize I \<noteq> 0"
  shows "\<exists>h n. tree_inv h n \<and> h 0 = Some (top t) \<and> nodes t = h(0 := None)"
proof -
  from assms obtain s R
    where s: "for_loop [0..<getHeight (img (initial_scan I))] (scan_row cast fuel) (initial_scan I) = Inr s"
      and R: "heap s 0 = Some R" and t: "t = \<lparr>top = R, nodes = (heap s)(0 := None)\<rparr>"
    by (auto simp: extractContours_def scan_image_def Let_def split: sum.splits option.splits)
  from for_loop_inv [where Q = "\<lambda>s. tree_inv (heap s) (next_addr s)", OF _ initial_scan_inv s]
  have "tree_inv (heap s) (next_addr s)" using scan_row_inv by blast
  with R t show ?thesis by auto
qed

lemma in_tree_top: "a \<in> set (m_children (top t)) \<Longrightarrow> in_tree t a"
  by (simp add: in_tree_def tree_top)

lemma in_tree_child:
  "in_tree t p \<Longrightarrow> a \<in> set (contour_children t p) \<Longrightarrow> in_tree t a"
  unfolding in_tree_def contour_children_def
  by (cases "nodes t p") (auto intro: tree_child)

lemma tree_inv_root_no_child:
  assumes inv: "tree_inv h n" and p: "h p = Some pc"
  shows "0 \<notin> set (m_children pc)"
proof
  assume "0 \<in> set (m_children pc)"
  with inv p obtain c where "h 0 = Some c" "m_parent c = Addr p"
    unfolding tree_inv_def by blast
  moreover from inv obtain r where "h 0 = Some r" "m_parent r = Indeterminate"
    unfolding tree_inv_def by blast
  ultimately show False by simp
qed

text \<open>
  A node of the returned tree is a child of the root, of kind Outer, whose
  \<open>m_parent\<close> is the address of the freed root, or a child of another node of the
  tree, which its \<open>m_parent\<close> points to and whose kind is the opposite of its own.
\<close>

lemma tree_node_cases:
  assumes inv: "tree_inv h n" and R: "h 0 = Some R"
    and a: "a \<in> tree_nodes (h(0 := None)) (m_children R)"
  shows "a \<noteq> 0 \<and> (\<exists>c. h a = Some c \<and>
      ((a \<in> set (m_children R) \<and> m_parent c = Addr 0 \<and> m_contourType c = CONTOUR_OUTER) \<or>
       (\<exists>p pc. p \<noteq> 0 \<and> p \<in> tree_nodes (h(0 := None)) (m_children R) \<and> h p = Some pc
          \<and> a \<in> set (m_children pc) \<and> m_parent c = Addr p
          \<and> kinds_ok (m_contourType c) (m_contourType pc))))"
  using a
proof cases
  case tree_top
  from inv R have RH: "m_contourType R = CONTOUR_HOLE" by (auto simp: tree_inv_def)
  from inv R tree_top obtain c where c: "h a = Some c" "m_parent c = Addr 0"
    "kinds_ok (m_contourType c) (m_contourType R)"
    unfolding tree_inv_def by blast
  from c(3) RH have "m_contourType c = CONTOUR_OUTER" by (simp add: kinds_ok_def)
  moreover have "a \<noteq> 0" using tree_inv_root_no_child [OF inv R] tree_top by (cases "a = 0") simp_all
  ultimately show ?thesis using c tree_top by blast
next
  case (tree_child p pc)
  then have p: "p \<noteq> 0" "h p = Some pc" by (auto split: if_splits)
  with inv tree_child(3) obtain c where c: "h a = Some c" "m_parent c = Addr p"
    "kinds_ok (m_contourType c) (m_contourType pc)"
    unfolding tree_inv_def by blast
  have "a \<noteq> 0" using tree_inv_root_no_child [OF inv p(2)] tree_child(3) by (cases "a = 0") simp_all
  with c p tree_child show ?thesis by blast
qed

lemma returned_tree_node:
  assumes ex: "extractContours cast fuel I contour = Inr t" and size: "getSize I \<noteq> 0"
    and a: "in_tree t a"
  shows "\<exists>c. nodes t a = Some c \<and>
      ((a \<in> set (m_children (top t)) \<and> m_contourType c = CONTOUR_OUTER
          \<and> m_contourType (top t) = CONTOUR_HOLE) \<or>
       (\<exists>p pc. in_tree t p \<and> nodes t p = Some pc \<and> a \<in> set (m_children pc)
          \<and> m_parent c = Addr p \<and> kinds_ok (m_contourType c) (m_contourType pc)))"
proof -
  from extractContours_inv [OF ex size] obtain h n
    where inv: "tree_inv h n" and R: "h 0 = Some (top t)" and nodes: "nodes t = h(0 := None)"
    by blast
  from inv R have RH: "m_contourType (top t) = CONTOUR_HOLE" by (auto simp: tree_inv_def)
  from a have "a \<in> tree_nodes (h(0 := None)) (m_children (top t))"
    by (simp add: in_tree_def nodes)
  from tree_node_cases [OF inv R this] RH show ?thesis
    by (auto simp: nodes in_tree_def)
qed

text \<open>
  The \<open>m_parent\<close> of a top-level contour of a returned tree is the address of the
  root that \<open>extractContours\<close> has freed.
\<close>

lemma top_level_parent:
  assumes ex: "extractContours cast fuel I contour = Inr t" and size: "getSize I \<noteq> 0"
    and a: "a \<in> set (m_children (top t))"
  shows "\<exists>c. nodes t a = Some c \<and> m_parent c = Addr 0 \<and> nodes t 0 = None"
proof -
  from extractContours_inv [OF ex size] obtain h n
    where inv: "tree_inv h n" and R: "h 0 = Some (top t)" and nodes: "nodes t = h(0 := None)"
    by blast
  from a have "a \<in> tree_nodes (h(0 := None)) (m_children (top t))" by (rule tree_top)
  from tree_node_cases [OF inv R this] a inv R show ?thesis
    unfolding tree_inv_def nodes by fastforce
qed

text \<open>
  C3 (as the code has it).  Whenever \<open>extractContours\<close> returns on a non-empty
  raster, the root of the tree it hands back, the caller's contour, is of kind Hole
  ("by default the root contour is a hole contour"), and every node below it is a
  contour of kind Outer or of kind Hole: no node of the tree is of kind Background.
\<close>

theorem extractContours_root:
  assumes "extractContours cast fuel I contour = Inr t" and "getSize I \<noteq> 0"
  shows "m_contourType (top t) = CONTOUR_HOLE
    \<and> (\<forall>a. in_tree t a \<longrightarrow>
          contour_kind t a = Some CONTOUR_OUTER \<or> contour_kind t a = Some CONTOUR_HOLE)"
proof -
  from extractContours_inv [OF assms] obtain h n
    where inv: "tree_inv h n" and R: "h 0 = Some (top t)" and nodes: "nodes t = h(0 := None)"
    by blast
  from inv R have 1: "m_contourType (top t) = CONTOUR_HOLE" by (auto simp: tree_inv_def)
  have 2: "contour_kind t a = Some CONTOUR_OUTER \<or> contour_kind t a = Some CONTOUR_HOLE"
    if "in_tree t a" for a
  proof -
    from returned_tree_node [OF assms that] obtain c where c: "nodes t a = Some c" by blast
    then have "h a = Some c" by (auto simp: nodes split: if_splits)
    with inv have "m_contourType c \<noteq> CONTOUR_BACKGROUND" by (auto simp: tree_inv_def)
    with c show ?thesis by (cases "m_contourType c") (auto simp: contour_kind_def)
  qed
  from 1 2 show ?thesis by blast
qed

lemma ring_result:
  "\<exists>t. extractContours to_uint 100 ring_with_island no_contour = Inr t
     \<and> m_contourType (top t) = CONTOUR_HOLE
     \<and> m_children (top t) = [1] \<and> contour_children t 1 = [2] \<and> contour_children t 2 = [3]
     \<and> contour_kind t 1 = Some CONTOUR_OUTER \<and> contour_kind t 2 = Some CONTOUR_HOLE
     \<and> contour_kind t 3 = Some CONTOUR_OUTER
     \<and> contour_parent t 1 = Some 0 \<and> contour_parent t 2 = Some 1 \<and> contour_parent t 3 = Some 2"
proof -
  have "case extractContours to_uint 100 ring_with_island no_contour of
          Inl e \<Rightarrow> False
        | Inr t \<Rightarrow> m_contourType (top t) = CONTOUR_HOLE
     \<and> m_children (top t) = [1] \<and> contour_children t 1 = [2] \<and> contour_children t 2 = [3]
     \<and> contour_kind t 1 = Some CONTOUR_OUTER \<and> contour_kind t 2 = Some CONTOUR_HOLE
     \<and> contour_kind t 3 = Some CONTOUR_OUTER
     \<and> contour_parent t 1 = Some 0 \<and> contour_parent t 2 = Some 1 \<and> contour_parent t 3 = Some 2"
    by code_simp
  then show ?thesis by (auto split: sum.splits)
qed

theorem extractContours_root_witness:
  "\<exists>t. extractContours to_uint 100 ring_with_island no_contour = Inr t
     \<and> getSize ring_with_island \<noteq> 0
     \<and> m_contourType (top t) = CONTOUR_HOLE
     \<and> in_tree t 1 \<and> contour_kind t 1 = Some CONTOUR_OUTER
     \<and> in_tree t 2 \<and> contour_kind t 2 = Some CONTOUR_HOLE"
proof -
  from ring_result obtain t where t: "extractContours to_uint 100 ring_with_island no_contour = Inr t"
    and c: "m_children (top t) = [1]" "contour_children t 1 = [2]"
    and k: "contour_kind t 1 = Some CONTOUR_OUTER" "contour_kind t 2 = Some CONTOUR_HOLE"
    by blast
  have size: "getSize ring_with_island \<noteq> 0"
    by (simp add: getSize_def getHeight_def getWidth_def ring_with_island_def)
  have 1: "in_tree t 1" using in_tree_top [of 1 t] c by simp
  then have 2: "in_tree t 2" using in_tree_child [of t 1 2] c by simp
  from extractContours_root [OF t size] t size k 1 2 show ?thesis by auto
qed

text \<open>
  C3, the claim as stated fails, in both its parts.  The root is created by
  \<open>new vpContour(vp::CONTOUR_HOLE)\<close>: on the raster \<open>1 1\<close> the call returns a tree
  with one Outer contour below a root of kind Hole, not of kind Background.  And not
  every call on a non-empty raster returns a tree: on the raster \<open>1\<close> the call ends in
  the exception of \<open>followBorder\<close> when the cast saturates, and in the use of the
  root's \<open>m_parent\<close>, which has no value, when the cast wraps around.
\<close>

theorem root_kind_counterexample:
  "failure_of (extractContours to_uint 10 [[1, 1]] no_contour) = None
   \<and> m_contourType (top (the_tree (extractContours to_uint 10 [[1, 1]] no_contour))) = CONTOUR_HOLE
   \<and> m_children (top (the_tree (extractContours to_uint 10 [[1, 1]] no_contour))) = [1]
   \<and> contour_kind (the_tree (extractContours to_uint 10 [[1, 1]] no_contour)) 1 = Some CONTOUR_OUTER
   \<and> failure_of (extractContours saturating 10 [[1]] no_contour) = Some FatalError
   \<and> failure_of (extractContours to_uint 10 [[1]] no_contour) = Some Uninitialised"
  by code_simp

text \<open>
  C6 (as the code has it).  In every tree returned by \<open>extractContours\<close> the parent of
  an Outer contour is of kind Hole: an Outer contour is a child of the root, itself of
  kind Hole, or its \<open>m_parent\<close> points to a contour of kind Hole that is in the tree
  and lists it among its children; its parent is never another Outer contour.
\<close>

theorem outer_parent_is_hole:
  assumes "extractContours cast fuel I contour = Inr t" and "getSize I \<noteq> 0"
    and "in_tree t a" and "contour_kind t a = Some CONTOUR_OUTER"
  shows "(a \<in> set (m_children (top t)) \<and> m_contourType (top t) = CONTOUR_HOLE)
       \<or> (\<exists>p. contour_parent t a = Some p \<and> in_tree t p \<and> a \<in> set (contour_children t p)
             \<and> contour_kind t p = Some CONTOUR_HOLE)"
  using returned_tree_node [OF assms(1-3)] assms(4)
  by (auto simp: contour_parent_def contour_children_def contour_kind_def kinds_ok_def)

theorem outer_parent_is_hole_witness:
  "\<exists>t. extractContours to_uint 100 ring_with_island no_contour = Inr t
     \<and> getSize ring_with_island \<noteq> 0
     \<and> in_tree t 3 \<and> contour_kind t 3 = Some CONTOUR_OUTER \<and> 3 \<notin> set (m_children (top t))
     \<and> contour_parent t 3 = Some 2 \<and> in_tree t 2 \<and> contour_kind t 2 = Some CONTOUR_HOLE
     \<and> in_tree t 1 \<and> contour_kind t 1 = Some CONTOUR_OUTER \<and> 1 \<in> set (m_children (top t))
     \<and> m_contourType (top t) = CONTOUR_HOLE"
proof -
  from ring_result obtain t where t: "extractContours to_uint 100 ring_with_island no_contour = Inr t"
    and c: "m_children (top t) = [1]" "contour_children t 1 = [2]" "contour_children t 2 = [3]"
    and k: "contour_kind t 3 = Some CONTOUR_OUTER" "contour_kind t 1 = Some CONTOUR_OUTER"
    and p: "contour_parent t 3 = Some 2" and r: "m_contourType (top t) = CONTOUR_HOLE"
    by blast
  have size: "getSize ring_with_island \<noteq> 0"
    by (simp add: getSize_def getHeight_def getWidth_def ring_with_island_def)
  have 1: "in_tree t 1" using in_tree_top [of 1 t] c by simp
  then have 2: "in_tree t 2" using in_tree_child [of t 1 2] c by simp
  then have 3: "in_tree t 3" using in_tree_child [of t 2 3] c by simp
  from outer_parent_is_hole [OF t size 3 k(1)] p t size 1 2 3 k c r
  show ?thesis by auto
qed

text \<open>
  C6, the claim as stated fails: on a ring that encloses a two-pixel island the tree
  is the root with the Outer contour 1 (the ring) below it, the Hole contour 2 (the
  inside of the ring) below that and the Outer contour 3 (the island) below the Hole
  contour 2: the parent of contour 3 is neither the root nor an Outer contour.
\<close>

theorem outer_parent_counterexample:
  "failure_of (extractContours to_uint 100 ring_with_island no_contour) = None
   \<and> m_children (top (the_tree (extractContours to_uint 100 ring_with_island no_contour))) = [1]
   \<and> contour_children (the_tree (extractContours to_uint 100 ring_with_island no_contour)) 1 = [2]
   \<and> contour_children (the_tree (extractContours to_uint 100 ring_with_island no_contour)) 2 = [3]
   \<and> contour_kind (the_tree (extractContours to_uint 100 ring_with_island no_contour)) 3 = Some CONTOUR_OUTER
   \<and> contour_parent (the_tree (extractContours to_uint 100 ring_with_island no_contour)) 3 = Some 2
   \<and> contour_kind (the_tree (extractContours to_uint 100 ring_with_island no_contour)) 2 = Some CONTOUR_HOLE"
  by code_simp

text \<open>
  C7.  In every tree returned by \<open>extractContours\<close> the \<open>m_parent\<close> of a contour of
  kind Hole points to a contour of kind Outer that is in the tree and lists it among
  its children, and all its children are of kind Outer; the children of the
  root, itself of kind Hole, are of kind Outer too: a Hole contour is never the direct
  parent of a Hole contour.
\<close>

theorem hole_parent_is_outer:
  assumes "extractContours cast fuel I contour = Inr t" and "getSize I \<noteq> 0"
    and "in_tree t a" and "contour_kind t a = Some CONTOUR_HOLE"
  shows "(\<exists>p. contour_parent t a = Some p \<and> in_tree t p \<and> a \<in> set (contour_children t p)
             \<and> contour_kind t p = Some CONTOUR_OUTER)
       \<and> (\<forall>c \<in> set (contour_children t a). contour_kind t c = Some CONTOUR_OUTER)
       \<and> m_contourType (top t) = CONTOUR_HOLE
       \<and> (\<forall>c \<in> set (m_children (top t)). contour_kind t c = Some CONTOUR_OUTER)"
proof -
  have 1: "\<exists>p. contour_parent t a = Some p \<and> in_tree t p \<and> a \<in> set (contour_children t p)
             \<and> contour_kind t p = Some CONTOUR_OUTER"
    using returned_tree_node [OF assms(1-3)] assms(4)
    by (auto simp: contour_parent_def contour_children_def contour_kind_def kinds_ok_def)
  have 2: "contour_kind t c = Some CONTOUR_OUTER" if "c \<in> set (contour_children t a)" for c
  proof -
    from that assms(3) have "in_tree t c" by (rule in_tree_child [rotated])
    from returned_tree_node [OF assms(1,2) this] obtain cc
      where cc: "nodes t c = Some cc"
        and alt: "m_contourType cc = CONTOUR_OUTER \<or>
          (\<exists>p pc. nodes t p = Some pc \<and> c \<in> set (m_children pc) \<and> m_parent cc = Addr p
             \<and> kinds_ok (m_contourType cc) (m_contourType pc))"
      by blast
    from that assms(4) obtain ac where ac: "nodes t a = Some ac" "c \<in> set (m_children ac)"
      "m_contourType ac = CONTOUR_HOLE"
      by (auto simp: contour_children_def contour_kind_def split: option.splits)
    from extractContours_inv [OF assms(1,2)] obtain h n
      where inv: "tree_inv h n" and nodes: "nodes t = h(0 := None)"
      by blast
    from ac have "h a = Some ac" by (auto simp: nodes split: if_splits)
    with inv ac obtain c' where "h c = Some c'" "kinds_ok (m_contourType c') CONTOUR_HOLE"
      unfolding tree_inv_def by metis
    moreover from cc have "h c = Some cc" by (auto simp: nodes split: if_splits)
    ultimately show ?thesis using cc by (simp add: contour_kind_def kinds_ok_def)
  qed
  have 3: "m_contourType (top t) = CONTOUR_HOLE"
    using extractContours_inv [OF assms(1,2)] by (auto simp: tree_inv_def)
  have 4: "contour_kind t c = Some CONTOUR_OUTER" if "c \<in> set (m_children (top t))" for c
  proof -
    from that have c: "in_tree t c" by (rule in_tree_top)
    from extractContours_inv [OF assms(1,2)] obtain h n
      where inv: "tree_inv h n" and R: "h 0 = Some (top t)" and nodes: "nodes t = h(0 := None)"
      by blast
    from c have "c \<in> tree_nodes (h(0 := None)) (m_children (top t))"
      by (simp add: in_tree_def nodes)
    from tree_node_cases [OF inv R this] obtain cc where c0: "c \<noteq> 0" and cc: "h c = Some cc"
      by blast
    from inv R that obtain c' where "h c = Some c'"
      "kinds_ok (m_contourType c') (m_contourType (top t))"
      unfolding tree_inv_def by blast
    with cc c0 3 show ?thesis by (simp add: contour_kind_def nodes kinds_ok_def)
  qed
  from 1 2 3 4 show ?thesis by blast
qed

theorem hole_parent_is_outer_witness:
  "\<exists>t. extractContours to_uint 100 ring_with_island no_contour = Inr t
     \<and> getSize ring_with_island \<noteq> 0
     \<and> in_tree t 2 \<and> contour_kind t 2 = Some CONTOUR_HOLE
     \<and> contour_parent t 2 = Some 1 \<and> in_tree t 1 \<and> contour_kind t 1 = Some CONTOUR_OUTER
     \<and> contour_children t 2 = [3] \<and> contour_kind t 3 = Some CONTOUR_OUTER
     \<and> m_contourType (top t) = CONTOUR_HOLE \<and> m_children (top t) = [1]"
proof -
  from ring_result obtain t where t: "extractContours to_uint 100 ring_with_island no_contour = Inr t"
    and c: "m_children (top t) = [1]" "contour_children t 1 = [2]" "contour_children t 2 = [3]"
    and k: "contour_kind t 2 = Some CONTOUR_HOLE" and p: "contour_parent t 2 = Some 1"
    by blast
  have size: "getSize ring_with_island \<noteq> 0"
    by (simp add: getSize_def getHeight_def getWidth_def ring_with_island_def)
  have 1: "in_tree t 1" using in_tree_top [of 1 t] c by simp
  then have 2: "in_tree t 2" using in_tree_child [of t 1 2] c by simp
  from hole_parent_is_outer [OF t size 2 k] p t size 1 2 k c show ?thesis by auto
qed


subsection \<open>Outer and hole starts\<close>

text \<open>
  C8 (as the code has it).  A pixel can meet both start conditions at once; the scan
  then takes the Outer branch.  Whenever the step at a pixel leaves a new contour
  behind, the pixel met one of the two conditions, and the contour is of kind Outer if
  the pixel met the Outer-start condition (whether or not it met the other one) and
  of kind Hole otherwise: every border start gets exactly one kind, by precedence.
\<close>

theorem border_kind_by_precedence:
  assumes "tree_inv (heap s) (next_addr s)" and "scan_pixel cast fuel i j s = Inr s'"
    and "heap s' (next_addr s) = Some c"
  shows "(isOuterBorderStart (img s) i j \<or> isHoleBorderStart (img s) i j)
       \<and> m_contourType c
           = (if isOuterBorderStart (img s) i j then CONTOUR_OUTER else CONTOUR_HOLE)"
proof -
  let ?o = "isOuterBorderStart (img s) i j" and ?h = "isHoleBorderStart (img s) i j"
  have fresh: "heap s (next_addr s) = None" using assms(1) by (rule tree_inv_fresh)
  show ?thesis
  proof (cases "?o \<or> ?h")
    case True
    with assms(2) obtain s1 where s1: "start_border cast fuel i j (pix (img s) i j) ?o ?h s = Inr s1"
      and s': "heap s' = heap s1"
      by (auto simp: scan_pixel_def Let_def split: sum.splits if_splits)
    from start_border_inv [OF assms(1) True s1] s' assms(3) True show ?thesis by auto
  next
    case False
    with assms(2) have "heap s' = heap s"
      by (auto simp: scan_pixel_def Let_def split: if_splits)
    with fresh assms(3) show ?thesis by simp
  qed
qed

theorem border_kind_by_precedence_witness:
  "\<exists>s' c. tree_inv (heap (initial_scan diagonal_pair)) (next_addr (initial_scan diagonal_pair))
     \<and> scan_pixel to_uint 10 0 0 (initial_scan diagonal_pair) = Inr s'
     \<and> heap s' (next_addr (initial_scan diagonal_pair)) = Some c
     \<and> isOuterBorderStart (img (initial_scan diagonal_pair)) 0 0
     \<and> isHoleBorderStart (img (initial_scan diagonal_pair)) 0 0
     \<and> m_contourType c = CONTOUR_OUTER"
proof -
  let ?s = "initial_scan diagonal_pair"
  have "case scan_pixel to_uint 10 0 0 ?s of Inl e \<Rightarrow> False
        | Inr s' \<Rightarrow> heap s' (next_addr ?s) \<noteq> None"
    by code_simp
  then obtain s' c where s': "scan_pixel to_uint 10 0 0 ?s = Inr s'" and c: "heap s' (next_addr ?s) = Some c"
    by (auto split: sum.splits)
  have both: "isOuterBorderStart (img ?s) 0 0" "isHoleBorderStart (img ?s) 0 0"
    by (simp_all add: isOuterBorderStart_def isHoleBorderStart_def initial_scan_def pix_def
      getWidth_def to_uint_def diagonal_pair_def)
  from border_kind_by_precedence [OF initial_scan_inv s' c] both s' c initial_scan_inv [of diagonal_pair]
  show ?thesis by auto
qed

text \<open>
  C8, the claim as stated fails: the only pixel of the raster \<open>1\<close> has value 1, lies
  in column 0 and in the last column, and so meets the Outer-start and the Hole-start
  condition together.
\<close>

theorem both_starts_counterexample:
  "isOuterBorderStart (img (initial_scan [[1]])) 0 0
   \<and> isHoleBorderStart (img (initial_scan [[1]])) 0 0"
  by (simp add: isOuterBorderStart_def isHoleBorderStart_def initial_scan_def pix_def
      getWidth_def to_uint_def)

subsection \<open>Failures while a border is traced\<close>

lemma for_loop_failure:
  "for_loop ks body s = Inr s1 \<Longrightarrow> body k s1 = Inl e \<Longrightarrow> for_loop (ks @ k # ks') body s = Inl e"
  by (induction ks arbitrary: s) (auto split: sum.splits)

lemma upt_split: "j < w \<Longrightarrow> [0..<w] = [0..<j] @ j # [Suc j..<w]"
  by (metis less_imp_le_nat upt_add_eq_append upt_conv_Cons le_add_diff_inverse plus_nat.add_0
      zero_le)

lemma attach_points:
  assumes "attach rule b bp h0 = Inr h" and "h0 b = Some c0"
  shows "\<exists>c. h b = Some c \<and> m_points c = m_points c0"
  using assms unfolding attach_def setParent_def Let_def
  by (auto split: option.splits pointer.splits if_splits)

text \<open>
  C5 (as the code has it).  The scan has come to the pixel \<open>(i, j)\<close> in the state
  \<open>s\<close>; the pixel starts a border, the last border \<open>borderPrime\<close> is found in the map
  and the new contour has got its parent.  If \<open>followBorder\<close> then throws (the
  direction lookup was given two identical points), \<open>extractContours\<close> as a whole ends
  with that exception: nothing catches it, the contour is not discarded and the scan
  does not go on.
\<close>

theorem lookup_failure_aborts:
  assumes size: "getSize I \<noteq> 0" and i: "i < getHeight I"
    and rows: "for_loop [0..<i] (scan_row cast fuel) (initial_scan I) = Inr s0"
    and j: "j < getWidth (img s0)"
    and cols: "for_loop [0..<j] (scan_pixel cast fuel i) (s0\<lparr>lnbd := 1\<rparr>) = Inr s"
    and start: "isOuterBorderStart (img s) i j \<or> isHoleBorderStart (img s) i j"
    and prime: "borderMap s (if \<not> isOuterBorderStart (img s) i j \<and> pix (img s) i j > 1
                             then pix (img s) i j else lnbd s) = Some borderPrime"
    and att: "attach (if isOuterBorderStart (img s) i j then parent_for_outer else parent_for_hole)
                (next_addr s) borderPrime
                (set_type (next_addr s)
                   (if isOuterBorderStart (img s) i j then CONTOUR_OUTER else CONTOUR_HOLE)
                   ((heap s)(next_addr s \<mapsto> new_vpContour))) = Inr h"
    and thr: "followBorder cast fuel (img s) (int i, int j)
                (if isOuterBorderStart (img s) i j then (int i, int j - 1) else (int i, int j + 1))
                [] (nbd s + 1) = Inl FatalError"
  shows "extractContours cast fuel I contour = Inl FatalError"
proof -
  define isOuter where "isOuter = isOuterBorderStart (img s) i j"
  define isHole where "isHole = isHoleBorderStart (img s) i j"
  define fji where "fji = pix (img s) i j"
  define n where "n = next_addr s"
  define T where "T = (if isOuter then CONTOUR_OUTER else CONTOUR_HOLE)"
  define rule where "rule = (if isOuter then parent_for_outer else parent_for_hole)"
  define l where "l = (if \<not> isOuter \<and> fji > 1 then fji else lnbd s)"
  define frm where "frm = (if isOuter then (int i, int j - 1) else (int i, int j + 1))"
  define sa where "sa = s\<lparr>heap := (heap s)(n \<mapsto> new_vpContour), next_addr := Suc n,
                          nbd := nbd s + 1, lnbd := l\<rparr>"
  define s1 where "s1 = sa\<lparr>heap := h\<rparr>"
  have prime': "borderMap s l = Some borderPrime"
    unfolding l_def isOuter_def fji_def by (rule prime)
  have att': "attach rule n borderPrime (set_type n T ((heap s)(n \<mapsto> new_vpContour))) = Inr h"
    unfolding rule_def n_def T_def isOuter_def by (rule att)
  have sb: "start_border cast fuel i j fji isOuter isHole s
      = (case attach rule n borderPrime (set_type n T ((heap s)(n \<mapsto> new_vpContour))) of
           Inl e \<Rightarrow> Inl e
         | Inr h2 \<Rightarrow>
             trace_border cast fuel i j isOuter isHole n borderPrime frm (sa\<lparr>heap := h2\<rparr>))"
    using prime'
    by (cases isOuter)
      (auto simp: start_border_def Let_def l_def T_def rule_def n_def frm_def sa_def
        split: sum.splits)
  have "set_type n T ((heap s)(n \<mapsto> new_vpContour)) n
      = Some (new_vpContour\<lparr>m_contourType := T\<rparr>)"
    by (simp add: set_type_def)
  from attach_points [OF att' this] obtain B where B: "h n = Some B" "m_points B = []"
    by (auto simp: new_vpContour_def)
  have "trace_border cast fuel i j isOuter isHole n borderPrime frm s1 = Inl FatalError"
    using B thr by (simp add: trace_border_def s1_def sa_def frm_def isOuter_def)
  with sb att' have "start_border cast fuel i j fji isOuter isHole s = Inl FatalError"
    by (simp add: s1_def)
  with start have pixel: "scan_pixel cast fuel i j s = Inl FatalError"
    by (simp add: scan_pixel_def Let_def isOuter_def isHole_def fji_def)
  have "scan_row cast fuel i s0
      = for_loop ([0..<j] @ j # [Suc j..<getWidth (img s0)]) (scan_pixel cast fuel i) (s0\<lparr>lnbd := 1\<rparr>)"
    by (simp only: scan_row_def upt_split [OF j, symmetric])
  also have "\<dots> = Inl FatalError"
    by (rule for_loop_failure [OF cols pixel])
  finally have row: "scan_row cast fuel i s0 = Inl FatalError" .
  have "getHeight (img (initial_scan I)) = getHeight I"
    by (simp add: initial_scan_def getHeight_def)
  then have "scan_image cast fuel I
      = for_loop ([0..<i] @ i # [Suc i..<getHeight I]) (scan_row cast fuel) (initial_scan I)"
    by (simp only: scan_image_def Let_def upt_split [OF i, symmetric])
  also have "\<dots> = Inl FatalError"
    by (rule for_loop_failure [OF rows row])
  finally have "scan_image cast fuel I = Inl FatalError" .
  with size show ?thesis by (simp add: extractContours_def)
qed

theorem lookup_failure_aborts_witness:
  "\<exists>h. getSize [[1, 1 :: 8 word]] \<noteq> 0 \<and> 0 < getHeight [[1, 1 :: 8 word]]
     \<and> for_loop [0..<0] (scan_row saturating 10) (initial_scan [[1, 1]]) = Inr (initial_scan [[1, 1]])
     \<and> 0 < getWidth (img (initial_scan [[1, 1]]))
     \<and> for_loop [0..<0] (scan_pixel saturating 10 0) ((initial_scan [[1, 1]])\<lparr>lnbd := 1\<rparr>)
         = Inr ((initial_scan [[1, 1]])\<lparr>lnbd := 1\<rparr>)
     \<and> isOuterBorderStart (img (initial_scan [[1, 1]])) 0 0
     \<and> borderMap (initial_scan [[1, 1]]) 1 = Some 0
     \<and> attach parent_for_outer 1 0
         (set_type 1 CONTOUR_OUTER ((heap (initial_scan [[1, 1]]))(1 \<mapsto> new_vpContour))) = Inr h
     \<and> followBorder saturating 10 (img (initial_scan [[1, 1]])) (0, 0) (0, -1) [] 2 = Inl FatalError
     \<and> extractContours saturating 10 [[1, 1]] no_contour = Inl FatalError"
proof -
  let ?I = "[[1, 1 :: 8 word]]"
  let ?s = "(initial_scan ?I)\<lparr>lnbd := 1\<rparr>"
  have size: "getSize ?I \<noteq> 0" and i: "0 < getHeight ?I"
    by (simp_all add: getSize_def getHeight_def getWidth_def)
  have rows: "for_loop [0..<0] (scan_row saturating 10) (initial_scan ?I) = Inr (initial_scan ?I)"
    by simp
  have j: "0 < getWidth (img (initial_scan ?I))"
    by (simp add: initial_scan_def getWidth_def)
  have cols: "for_loop [0..<0] (scan_pixel saturating 10 0) ?s = Inr ?s"
    by simp
  have outer: "isOuterBorderStart (img ?s) 0 0"
    by (simp add: isOuterBorderStart_def initial_scan_def pix_def)
  have prime: "borderMap ?s 1 = Some 0" and n: "next_addr ?s = 1" and l: "lnbd ?s = 1"
    and nbd: "nbd ?s + 1 = 2"
    by (simp_all add: initial_scan_def)
  have "case attach parent_for_outer 1 0
          (set_type 1 CONTOUR_OUTER ((heap ?s)(1 \<mapsto> new_vpContour))) of
          Inl e \<Rightarrow> False | Inr h \<Rightarrow> True"
    by (simp add: attach_def setParent_def set_type_def initial_scan_def new_vpContour_of_def
        new_vpContour_def parent_for_outer_def)
  then obtain h where att: "attach parent_for_outer 1 0
          (set_type 1 CONTOUR_OUTER ((heap ?s)(1 \<mapsto> new_vpContour))) = Inr h"
    by (auto split: sum.splits)
  have thr: "followBorder saturating 10 (img ?s) (0, 0) (0, -1) [] 2 = Inl FatalError"
    by code_simp
  have "extractContours saturating 10 ?I no_contour = Inl FatalError"
    using lookup_failure_aborts [of ?I 0 saturating 10 "initial_scan ?I" 0 ?s 0 h no_contour]
      size i rows j cols outer prime att thr n l nbd
    by simp
  with size i rows j cols outer prime att thr show ?thesis by auto
qed

text \<open>
  C5, the claim as stated fails: on the raster \<open>1 1\<close>, with a cast that saturates
  (the row above row 0 becomes row 0), the first active neighbour found around the
  pixel \<open>(0, 0)\<close> is the pixel itself, the direction lookup is given two identical
  points, and \<open>extractContours\<close> ends with the exception of \<open>followBorder\<close> instead of
  discarding the contour and going on with the scan.
\<close>

theorem lookup_failure_counterexample:
  "first_active saturating (clockwise WEST) WEST (img (initial_scan [[1, 1]])) (0, 0) = (0, 0)
   \<and> fromTo (0, 0) (0, 0) = None
   \<and> failure_of (extractContours saturating 10 [[1, 1]] no_contour) = Some FatalError"
  by code_simp



subsection \<open>The caller's raster\<close>

lemma rollback_orig: "rollback i j isOuter isHole b bp s = Inr s' \<Longrightarrow> I_orig s' = I_orig s"
  unfolding rollback_def Let_def
  by (cases isOuter; cases isHole) (auto split: sum.splits)

lemma trace_border_orig:
  assumes "trace_border cast fuel i j isOuter isHole b bp frm s = Inr s'"
  shows "I_orig s' = I_orig s"
proof -
  from assms obtain B where B: "heap s b = Some B"
    by (auto simp: trace_border_def split: option.splits)
  from assms B obtain ok I' points
    where fb: "followBorder cast fuel (img s) (int i, int j) frm (m_points B) (nbd s) = Inr (ok, I', points)"
    by (auto simp: trace_border_def Let_def split: sum.splits)
  show ?thesis
  proof (cases ok)
    case True
    with assms B fb show ?thesis
      by (auto simp: trace_border_def Let_def split: if_splits)
  next
    case False
    with assms B fb rollback_orig show ?thesis
      by (fastforce simp: trace_border_def Let_def)
  qed
qed

lemma start_border_orig:
  assumes "start_border cast fuel i j fji isOuter isHole s = Inr s'"
  shows "I_orig s' = I_orig s"
  using assms trace_border_orig
  unfolding start_border_def Let_def
  by (cases isOuter) (fastforce split: option.splits sum.splits if_splits)+

lemma scan_pixel_orig: "scan_pixel cast fuel i j s = Inr s' \<Longrightarrow> I_orig s' = I_orig s"
  using start_border_orig
  by (fastforce simp: scan_pixel_def Let_def split: sum.splits if_splits)

lemma scan_image_orig:
  assumes "scan_image cast fuel I = Inr s"
  shows "I_orig s = I"
proof -
  have row: "I_orig s2 = I" if "I_orig s1 = I" "scan_row cast fuel i s1 = Inr s2" for i s1 s2
  proof -
    have "I_orig (s1\<lparr>lnbd := 1\<rparr>) = I" using that(1) by simp
    from for_loop_inv [where Q = "\<lambda>s. I_orig s = I", OF _ this that(2) [unfolded scan_row_def]]
    show ?thesis using scan_pixel_orig by simp
  qed
  have "I_orig (initial_scan I) = I" by (simp add: initial_scan_def)
  from for_loop_inv [where Q = "\<lambda>s. I_orig s = I", OF _ this assms [unfolded scan_image_def Let_def]]
  show ?thesis using row by blast
qed

lemma cc_pixel_orig: "cc_pixel connexity cpt1 cpt2 s = Inr s' \<Longrightarrow> cc_I s' = cc_I s"
  by (auto simp: cc_pixel_def Let_def split: if_splits sum.splits)

lemma label_scan_orig:
  assumes "label_scan I connexity = Inr s"
  shows "cc_I s = I"
proof -
  let ?s0 = "\<lparr>cc_I = I, cc_I_copy = add_border I,
             cc_labels_copy = newImage (getHeight I + 2) (getWidth I + 2) 0, cc_current_label = 1\<rparr>"
  have row: "cc_I s2 = I"
    if "cc_I s1 = I" "for_loop [0..<getWidth I] (cc_pixel connexity cpt1) s1 = Inr s2" for cpt1 s1 s2
    using for_loop_inv [where Q = "\<lambda>s. cc_I s = I", OF _ that] cc_pixel_orig by simp
  have "cc_I ?s0 = I" by simp
  from for_loop_inv [where Q = "\<lambda>s. cc_I s = I", OF _ this assms [unfolded label_scan_def Let_def]]
  show ?thesis using row by blast
qed

lemma fold_inv:
  assumes "\<And>x s. Q s \<Longrightarrow> Q (f x s)" and "Q s"
  shows "Q (fold f xs s)"
  using assms(2) by (induction xs arbitrary: s) (auto intro: assms(1))

lemma two_pass_orig: "tp_I (two_pass I connexity) = I"
proof -
  have 1: "tp_I (first_pass_pixel connexity cpt1 cpt2 s) = tp_I s" for cpt1 cpt2 s
    by (simp add: first_pass_pixel_def Let_def)
  have 2: "tp_I (second_pass_pixel cpt1 cpt2 s) = tp_I s" for cpt1 cpt2 s
    by (simp add: second_pass_pixel_def Let_def)
  have f1: "tp_I (fold (\<lambda>cpt1. fold (first_pass_pixel connexity cpt1) ws) hs s) = I"
    if "tp_I s = I" for s ws hs
    by (intro fold_inv [where Q = "\<lambda>s. tp_I s = I"]) (simp_all add: 1 that)
  have f2: "tp_I (fold (\<lambda>cpt1. fold (second_pass_pixel cpt1) ws) hs s) = I"
    if "tp_I s = I" for s ws hs
    by (intro fold_inv [where Q = "\<lambda>s. tp_I s = I"]) (simp_all add: 2 that)
  show ?thesis
    unfolding two_pass_def Let_def
    by (intro f2) (simp add: f1)
qed

text \<open>
  C9.  After a call of \<open>extractContours\<close>, \<open>connectedComponents\<close> or
  \<open>connectedComponents2\<close> the caller's input raster is what it was before: the
  operations write to their working copy and to the outputs only.  (The calls on the
  caller's objects give the results of the three functions.)
\<close>

theorem input_image_unchanged:
  "(call_extractContours cast fuel m = Inr m' \<longrightarrow>
      cm_image m' = cm_image m
      \<and> extractContours cast fuel (cm_image m) (cm_contour m) = Inr (cm_contour m'))
   \<and> (call_connectedComponents connexity m = Inr m'' \<longrightarrow>
      cm_image m'' = cm_image m
      \<and> connectedComponents (cm_image m) (cm_labels m) (cm_nbComponents m) connexity
          = Inr (cm_labels m'', cm_nbComponents m''))
   \<and> cm_image (call_connectedComponents2 connexity m) = cm_image m
   \<and> connectedComponents2 (cm_image m) (cm_labels m) (cm_nbComponents m) connexity
       = (cm_labels (call_connectedComponents2 connexity m),
          cm_nbComponents (call_connectedComponents2 connexity m))"
proof (intro conjI impI)
  assume "call_extractContours cast fuel m = Inr m'"
  then show "cm_image m' = cm_image m"
    using scan_image_orig
    by (auto simp: call_extractContours_def split: if_splits sum.splits option.splits)
next
  assume "call_extractContours cast fuel m = Inr m'"
  then show "extractContours cast fuel (cm_image m) (cm_contour m) = Inr (cm_contour m')"
    by (auto simp: call_extractContours_def extractContours_def
        split: if_splits sum.splits option.splits)
next
  assume "call_connectedComponents connexity m = Inr m''"
  then show "cm_image m'' = cm_image m"
    using label_scan_orig
    by (auto simp: call_connectedComponents_def split: if_splits sum.splits)
next
  assume "call_connectedComponents connexity m = Inr m''"
  then show "connectedComponents (cm_image m) (cm_labels m) (cm_nbComponents m) connexity
          = Inr (cm_labels m'', cm_nbComponents m'')"
    using label_scan_orig
    by (auto simp: call_connectedComponents_def connectedComponents_def
        split: if_splits sum.splits)
next
  show "cm_image (call_connectedComponents2 connexity m) = cm_image m"
    by (simp add: call_connectedComponents2_def Let_def two_pass_orig)
next
  show "connectedComponents2 (cm_image m) (cm_labels m) (cm_nbComponents m) connexity
       = (cm_labels (call_connectedComponents2 connexity m),
          cm_nbComponents (call_connectedComponents2 connexity m))"
    by (simp add: call_connectedComponents2_def connectedComponents2_def Let_def two_pass_orig)
qed

theorem input_image_unchanged_witness:
  "\<exists>m' m''. call_extractContours to_uint 20 sample_memory = Inr m'
     \<and> cm_image m' = cm_image sample_memory
     \<and> call_connectedComponents CONNECTED_CONNEXITY_8 sample_memory = Inr m''
     \<and> cm_image m'' = cm_image sample_memory
     \<and> cm_labels m'' = [[1, 1], [0, 1]] \<and> cm_nbComponents m'' = 1"
proof -
  have "case call_extractContours to_uint 20 sample_memory of Inl e \<Rightarrow> False | Inr m' \<Rightarrow> True"
    by code_simp
  then obtain m' where m': "call_extractContours to_uint 20 sample_memory = Inr m'"
    by (auto split: sum.splits)
  have "case call_connectedComponents CONNECTED_CONNEXITY_8 sample_memory of
          Inl e \<Rightarrow> False
        | Inr m'' \<Rightarrow> cm_labels m'' = [[1, 1], [0, 1]] \<and> cm_nbComponents m'' = 1"
    by code_simp
  then obtain m'' where m'': "call_connectedComponents CONNECTED_CONNEXITY_8 sample_memory = Inr m''"
    "cm_labels m'' = [[1, 1], [0, 1]]" "cm_nbComponents m'' = 1"
    by (auto split: sum.splits)
  from input_image_unchanged [of to_uint 20 sample_memory m' CONNECTED_CONNEXITY_8 m''] m' m''
  show ?thesis by auto
qed

subsection \<open>Empty input\<close>

text \<open>
  C4 (as the code has it).  On a raster of size zero each of the three operations
  returns at once, without failure, and hands back the output arguments exactly as the
  caller passed them: the contour, the label raster and the count are not reset.
\<close>

theorem empty_input_returns_arguments:
  "getSize I = 0 \<Longrightarrow>
     extractContours cast fuel I contour = Inr contour
     \<and> connectedComponents I labels nbComponents connexity = Inr (labels, nbComponents)
     \<and> connectedComponents2 I labels nbComponents connexity = (labels, nbComponents)"
  by (simp add: extractContours_def connectedComponents_def connectedComponents2_def)

theorem empty_input_returns_arguments_witness:
  "getSize ([] :: 8 word vpImage) = 0
   \<and> extractContours to_uint 0 [] no_contour = Inr no_contour
   \<and> connectedComponents [] [] 0 CONNECTED_CONNEXITY_8 = Inr ([], 0)
   \<and> connectedComponents2 [] [] 0 CONNECTED_CONNEXITY_8 = ([], 0)"
proof -
  have h: "getSize ([] :: 8 word vpImage) = 0"
    by (simp add: getSize_def getHeight_def)
  show ?thesis
    using empty_input_returns_arguments [OF h, of to_uint 0 no_contour "[]" 0
        CONNECTED_CONNEXITY_8] h
    by simp
qed

text \<open>
  C4, the claim as stated fails: with a label raster and a count left over from an
  earlier call, the labeler returns that raster and that count, not an empty raster
  and zero.
\<close>

theorem empty_input_counterexample:
  "connectedComponents [] [[7]] 9 CONNECTED_CONNEXITY_4 = Inr ([[7]], 9)
   \<and> connectedComponents2 [] [[7]] 9 CONNECTED_CONNEXITY_4 = ([[7]], 9)"
  by (simp add: connectedComponents_def connectedComponents2_def getSize_def getHeight_def)

subsection \<open>The labels of the expansion labeler\<close>














lemma adjacent_neq: "adjacent connexity p q \<Longrightarrow> p \<noteq> q"
  by (auto simp: adjacent_def Let_def split: if_splits)












































subsection \<open>The two labelers against each other\<close>

text \<open>
  C1.  On the raster \<open>0 1 / 1 1\<close> with the 4-connexity the expansion labeler counts
  one component and the two-pass labeler two (it returns the number of provisional
  labels); on the 4 x 4 raster below the two-pass labeler leaves the pixels of one
  component under two labels, since the loop between the passes merges the
  equivalence sets only one step deep.
\<close>

theorem labelers_disagree:
  "connectedComponents [[0, 1], [1, 1]] [] 0 CONNECTED_CONNEXITY_4 = Inr ([[0, 1], [1, 1]], 1)
   \<and> connectedComponents2 [[0, 1], [1, 1]] [] 0 CONNECTED_CONNEXITY_4 = ([[0, 1], [1, 1]], 2)
   \<and> connectedComponents [[0, 1, 0, 0], [1, 1, 0, 1], [1, 0, 1, 1], [1, 1, 1, 0]] [] 0
        CONNECTED_CONNEXITY_4
      = Inr ([[0, 1, 0, 0], [1, 1, 0, 1], [1, 0, 1, 1], [1, 1, 1, 0]], 1)
   \<and> connectedComponents2 [[0, 1, 0, 0], [1, 1, 0, 1], [1, 0, 1, 1], [1, 1, 1, 0]] [] 0
        CONNECTED_CONNEXITY_4
      = ([[0, 1, 0, 0], [1, 1, 0, 2], [1, 0, 1, 2], [1, 1, 1, 0]], 4)"
  by code_simp

end
